theory Spec2Isabelle
  imports Main "HOL-Library.Multiset" "HOL-Library.AList"
begin

section \<open>Python values, exceptions and dictionaries\<close>

text \<open>
  The engine is Python. An uncaught exception is a value \<open>Inl e\<close> of the result type
  \<open>exn + 'a\<close>; a function that mutates the game returns the new game beside its result.
  A \<open>dict\<close> is an association list in insertion order with distinct keys: \<open>d[k] = v\<close> is
  \<open>AList.update k v d\<close>, \<open>k in d\<close> and \<open>d.get(k)\<close> read \<open>map_of d k\<close>.
\<close>

datatype exn =
  ValueError | AttributeError | IndexError | KeyError | TypeError | StopIteration | NameError

datatype pyval =
    PNone
  | PBool bool
  | PInt int
  | PStr string
  | PList "pyval list"
  | PDict "(pyval \<times> pyval) list"

type_synonym event = "(string \<times> pyval) list"

fun truthy :: "pyval \<Rightarrow> bool" where
  "truthy PNone = False"
| "truthy (PBool b) = b"
| "truthy (PInt n) = (n \<noteq> 0)"
| "truthy (PStr s) = (s \<noteq> [])"
| "truthy (PList xs) = (xs \<noteq> [])"
| "truthy (PDict kvs) = (kvs \<noteq> [])"

definition dict_get :: "('k \<times> pyval) list \<Rightarrow> 'k \<Rightarrow> pyval" where
  "dict_get d k = (case map_of d k of None \<Rightarrow> PNone | Some v \<Rightarrow> v)"

definition dict_update :: "('k \<times> 'v) list \<Rightarrow> ('k \<times> 'v) list \<Rightarrow> ('k \<times> 'v) list" where
  "dict_update d other = foldl (\<lambda>acc kv. AList.update (fst kv) (snd kv) acc) d other"

definition opt_val :: "('a \<Rightarrow> pyval) \<Rightarrow> 'a option \<Rightarrow> pyval" where
  "opt_val f x = (case x of None \<Rightarrow> PNone | Some v \<Rightarrow> f v)"

fun index_of :: "'a list \<Rightarrow> 'a \<Rightarrow> nat option" where
  "index_of [] x = None"
| "index_of (y # ys) x = (if y = x then Some 0 else map_option Suc (index_of ys x))"

text \<open>\<open>random.choice(xs)\<close> with the random index injected as \<open>r\<close>; the caller has checked
  that \<open>xs\<close> is not empty.\<close>

definition choice :: "'a list \<Rightarrow> nat \<Rightarrow> 'a" where
  "choice xs r = xs ! (r mod length xs)"

section \<open>Data model (game\_logic/models.py)\<close>

datatype Suit = HEARTS | DIAMONDS | CLUBS | SPADES

datatype Rank = SEVEN | EIGHT | QUEEN | KING | TEN | ACE | NINE | JACK

fun suit_value :: "Suit \<Rightarrow> string" where
  "suit_value HEARTS = ''hearts''"
| "suit_value DIAMONDS = ''diamonds''"
| "suit_value CLUBS = ''clubs''"
| "suit_value SPADES = ''spades''"

fun rank_value :: "Rank \<Rightarrow> string" where
  "rank_value SEVEN = ''7''"
| "rank_value EIGHT = ''8''"
| "rank_value QUEEN = ''Q''"
| "rank_value KING = ''K''"
| "rank_value TEN = ''10''"
| "rank_value ACE = ''A''"
| "rank_value NINE = ''9''"
| "rank_value JACK = ''J''"

fun RANK_POINTS :: "Rank \<Rightarrow> int" where
  "RANK_POINTS SEVEN = 0"
| "RANK_POINTS EIGHT = 0"
| "RANK_POINTS QUEEN = 2"
| "RANK_POINTS KING = 3"
| "RANK_POINTS TEN = 10"
| "RANK_POINTS ACE = 11"
| "RANK_POINTS NINE = 20"
| "RANK_POINTS JACK = 30"

fun RANK_ORDER :: "Rank \<Rightarrow> int" where
  "RANK_ORDER SEVEN = 0"
| "RANK_ORDER EIGHT = 1"
| "RANK_ORDER QUEEN = 2"
| "RANK_ORDER KING = 3"
| "RANK_ORDER TEN = 4"
| "RANK_ORDER ACE = 5"
| "RANK_ORDER NINE = 6"
| "RANK_ORDER JACK = 7"

datatype GamePhase =
  WAITING | DEALING | BIDDING | TRUMP_SELECTION | CARD_EXCHANGE | PLAYING | SCORING

fun phase_value :: "GamePhase \<Rightarrow> string" where
  "phase_value WAITING = ''WAITING''"
| "phase_value DEALING = ''DEALING''"
| "phase_value BIDDING = ''BIDDING''"
| "phase_value TRUMP_SELECTION = ''TRUMP_SELECTION''"
| "phase_value CARD_EXCHANGE = ''CARD_EXCHANGE''"
| "phase_value PLAYING = ''PLAYING''"
| "phase_value SCORING = ''SCORING''"

datatype Card = Card (suit: Suit) (rank: Rank)

definition points :: "Card \<Rightarrow> int" where
  "points c = RANK_POINTS (rank c)"

definition card_order :: "Card \<Rightarrow> int" where
  "card_order c = RANK_ORDER (rank c)"

definition card_id :: "Card \<Rightarrow> string" where
  "card_id c = rank_value (rank c) @ ''_'' @ suit_value (suit c)"

text \<open>\<open>Suit(s)\<close> and \<open>Rank(s)\<close>: the enum member with that value, ValueError otherwise.\<close>

definition Suit_of :: "string \<Rightarrow> exn + Suit" where
  "Suit_of s =
     (case find (\<lambda>x. suit_value x = s) [HEARTS, DIAMONDS, CLUBS, SPADES] of
        None \<Rightarrow> Inl ValueError | Some x \<Rightarrow> Inr x)"

definition Rank_of :: "string \<Rightarrow> exn + Rank" where
  "Rank_of s =
     (case find (\<lambda>x. rank_value x = s) [SEVEN, EIGHT, QUEEN, KING, TEN, ACE, NINE, JACK] of
        None \<Rightarrow> Inl ValueError | Some x \<Rightarrow> Inr x)"

definition GamePhase_of :: "string \<Rightarrow> exn + GamePhase" where
  "GamePhase_of s =
     (case find (\<lambda>x. phase_value x = s)
        [WAITING, DEALING, BIDDING, TRUMP_SELECTION, CARD_EXCHANGE, PLAYING, SCORING] of
        None \<Rightarrow> Inl ValueError | Some x \<Rightarrow> Inr x)"

text \<open>\<open>s.rsplit("_", 1)\<close>: the text before and after the last underscore; with no
  underscore the result has one element and unpacking it into two names raises.\<close>

definition rsplit1 :: "string \<Rightarrow> (string \<times> string) option" where
  "rsplit1 s =
     (if CHR ''_'' \<in> set s
      then Some (rev (tl (dropWhile (\<lambda>c. c \<noteq> CHR ''_'') (rev s))),
                 rev (takeWhile (\<lambda>c. c \<noteq> CHR ''_'') (rev s)))
      else None)"

definition from_id :: "string \<Rightarrow> exn + Card" where
  "from_id cid =
     (case rsplit1 cid of
        None \<Rightarrow> Inl ValueError
      | Some (rank_str, suit_str) \<Rightarrow>
          (case Suit_of suit_str of
             Inl e \<Rightarrow> Inl e
           | Inr s \<Rightarrow> (case Rank_of rank_str of Inl e \<Rightarrow> Inl e | Inr r \<Rightarrow> Inr (Card s r))))"

definition beats :: "Card \<Rightarrow> Card \<Rightarrow> Suit option \<Rightarrow> bool \<Rightarrow> Suit \<Rightarrow> bool" where
  "beats self other trump_suit' trump_revealed' calling_suit =
     (if trump_revealed' \<and> trump_suit' \<noteq> None
         \<and> Some (suit self) = trump_suit' \<and> Some (suit other) \<noteq> trump_suit' then True
      else if trump_revealed' \<and> trump_suit' \<noteq> None
         \<and> Some (suit self) \<noteq> trump_suit' \<and> Some (suit other) = trump_suit' then False
      else if suit self = suit other then
        (if points self \<noteq> points other then points self > points other
         else card_order self > card_order other)
      else if suit other = calling_suit then False
      else if suit self = calling_suit then True
      else False)"

record Player =
  player_id :: string
  name :: string
  seat :: int
  connection_id :: "string option"
  hand :: "Card list"

definition to_public_dict :: "Player \<Rightarrow> pyval" where
  "to_public_dict p =
     PDict [(PStr ''player_id'', PStr (player_id p)), (PStr ''name'', PStr (name p)),
            (PStr ''seat'', PInt (seat p))]"

datatype Bid = Bid (bid_seat: int) (amount: "int option")

definition bid_to_dict :: "Bid \<Rightarrow> pyval" where
  "bid_to_dict b =
     PDict [(PStr ''seat'', PInt (bid_seat b)), (PStr ''amount'', opt_val PInt (amount b))]"

datatype TrickCard = TrickCard (tc_seat: int) (tc_card: Card)

definition tc_to_dict :: "TrickCard \<Rightarrow> pyval" where
  "tc_to_dict tc =
     PDict [(PStr ''seat'', PInt (tc_seat tc)), (PStr ''card'', PStr (card_id (tc_card tc)))]"

record GameState =
  game_code :: string
  mode :: int
  phase :: GamePhase
  players :: "Player list"
  dealer_seat :: int
  deck :: "Card list"
  center_pile :: "Card list"
  bids :: "Bid list"
  current_bid :: "Bid option"
  bid_turn_seat :: "int option"
  trumper_seat :: "int option"
  trump_suit :: "Suit option"
  trump_card :: "Card option"
  trump_revealed :: bool
  exchange_done :: bool
  current_trick :: "TrickCard list"
  tricks_won :: "(int \<times> Card list) list"
  turn_seat :: "int option"
  turn_deadline :: "string option"
  trick_number :: int
  lead_seat :: "int option"
  scores :: "(int \<times> int) list"
  games_played :: int
  created_at :: "string option"
  ttl :: "int option"

definition get_player_by_seat :: "GameState \<Rightarrow> int \<Rightarrow> Player option" where
  "get_player_by_seat s x = find (\<lambda>p. seat p = x) (players s)"

definition get_player_by_id :: "GameState \<Rightarrow> string \<Rightarrow> Player option" where
  "get_player_by_id s pid = find (\<lambda>p. player_id p = pid) (players s)"

text \<open>The player object that \<open>get_player_by_seat\<close> returns is the one in the list, so a
  change to it is a change to the first player of the list with that seat.\<close>

fun update_player :: "int \<Rightarrow> (Player \<Rightarrow> Player) \<Rightarrow> Player list \<Rightarrow> Player list" where
  "update_player x f [] = []"
| "update_player x f (p # ps) = (if seat p = x then f p # ps else p # update_player x f ps)"

definition set_hand :: "GameState \<Rightarrow> int \<Rightarrow> (Card list \<Rightarrow> Card list) \<Rightarrow> GameState" where
  "set_hand s x f = s\<lparr>players := update_player x (\<lambda>p. p\<lparr>hand := f (hand p)\<rparr>) (players s)\<rparr>"

definition next_seat :: "GameState \<Rightarrow> int \<Rightarrow> exn + int" where
  "next_seat s x =
     (let seats = sort (map seat (players s)) in
      case index_of seats x of
        None \<Rightarrow> Inl ValueError
      | Some idx \<Rightarrow> Inr (seats ! ((idx + 1) mod length seats)))"

definition get_team :: "GameState \<Rightarrow> int \<Rightarrow> int list" where
  "get_team s x =
     (if mode s = 4 then [x, (x + 2) mod 4]
      else if mode s = 3 \<and> trumper_seat s \<noteq> None then
        (if Some x = trumper_seat s then [x]
         else filter (\<lambda>y. Some y \<noteq> trumper_seat s) [0, 1, 2])
      else [x])"

definition get_trumper_team_seats :: "GameState \<Rightarrow> int list" where
  "get_trumper_team_seats s =
     (case trumper_seat s of None \<Rightarrow> [] | Some t \<Rightarrow> get_team s t)"

definition get_opposing_team_seats :: "GameState \<Rightarrow> int list" where
  "get_opposing_team_seats s =
     (case trumper_seat s of
        None \<Rightarrow> []
      | Some t \<Rightarrow> filter (\<lambda>x. x \<notin> set (get_trumper_team_seats s)) (map seat (players s)))"


section \<open>Errors returned to the requester\<close>

text \<open>Every \<open>return False, "..."\<close> of the engine is one constructor; a message built from a
  value carries the value.\<close>

datatype error =
    NotInPlayingPhase
  | NotYourTurn
  | DontHaveThatCard
  | MustFollowSuit
  | TrumperMustReveal
  | TrumpMustBeRevealed
  | NoValidCards
  | NotInTrumpSelectionPhase
  | OnlyTrumperCanSelect
  | TrumpCardWrongSuit
  | NotInCardExchangePhase
  | OnlyTrumperCanExchange
  | MustExchangeTwo
  | DontHave Card
  | OnlyTrumperCanSkip
  | TrumpAlreadyRevealed
  | TrumpNotSelected
  | NotInBiddingPhase
  | NotYourTurnToBid
  | MinimumBid int
  | MaximumBid int
  | BidMultiple int
  | BidMustExceed int
  | AlreadyBid
  | CannotOverbidYourself
  | CannotOverbidPartner
  | InvalidSuitOrCard
  | InvalidCard
  | UseRevealInstead
  | NoTrickInProgress
  | HaveCallingSuit
  | OnlyTrumperCanReveal
  | NotThisPlayersTurn
  | CurrentGameNotFinished
  | GameAlreadyStarted
  | GameIsFull
  | NeedPlayers int nat

text \<open>A handler returns \<open>(True, result)\<close> or \<open>(False, {"error": msg})\<close>.\<close>

datatype reply = Ok event | Err error

section \<open>Trump selection and reveal (game\_logic/trump.py)\<close>

definition set_first_player :: "GameState \<Rightarrow> exn + GameState" where
  "set_first_player s =
     (if (case current_bid s of None \<Rightarrow> False | Some b \<Rightarrow> amount b = Some 304)
      then Inr (s\<lparr>turn_seat := trumper_seat s, lead_seat := trumper_seat s, trick_number := 1\<rparr>)
      else (case next_seat s (dealer_seat s) of
              Inl e \<Rightarrow> Inl e
            | Inr n \<Rightarrow> Inr (s\<lparr>turn_seat := Some n, lead_seat := Some n, trick_number := 1\<rparr>)))"

definition validate_trump_selection ::
  "GameState \<Rightarrow> int \<Rightarrow> Suit \<Rightarrow> Card \<Rightarrow> exn + error option" where
  "validate_trump_selection s x su c =
     (if phase s \<noteq> TRUMP_SELECTION then Inr (Some NotInTrumpSelectionPhase)
      else if trumper_seat s \<noteq> Some x then Inr (Some OnlyTrumperCanSelect)
      else if suit c \<noteq> su then Inr (Some TrumpCardWrongSuit)
      else (case get_player_by_seat s x of
              None \<Rightarrow> Inl AttributeError
            | Some player \<Rightarrow>
                if c \<notin> set (hand player) then Inr (Some DontHaveThatCard) else Inr None))"

definition select_trump :: "GameState \<Rightarrow> int \<Rightarrow> Suit \<Rightarrow> Card \<Rightarrow> exn + (event \<times> GameState)" where
  "select_trump s x su c =
     (case get_player_by_seat s x of
        None \<Rightarrow> Inl AttributeError
      | Some player \<Rightarrow>
          if c \<notin> set (hand player) then Inl ValueError
          else
            (let s1 = (set_hand s x (remove1 c))
                        \<lparr>trump_suit := Some su, trump_card := Some c, trump_revealed := False\<rparr>
             in if mode s1 = 3
                then Inr ([(''trump_selected'', PBool True), (''next_phase'', PStr ''CARD_EXCHANGE'')],
                          s1\<lparr>phase := CARD_EXCHANGE\<rparr>)
                else (case set_first_player (s1\<lparr>phase := PLAYING\<rparr>) of
                        Inl e \<Rightarrow> Inl e
                      | Inr s2 \<Rightarrow>
                          Inr ([(''trump_selected'', PBool True), (''next_phase'', PStr ''PLAYING'')],
                               s2))))"

definition validate_card_exchange :: "GameState \<Rightarrow> int \<Rightarrow> Card list \<Rightarrow> exn + error option" where
  "validate_card_exchange s x cards =
     (if phase s \<noteq> CARD_EXCHANGE then Inr (Some NotInCardExchangePhase)
      else if trumper_seat s \<noteq> Some x then Inr (Some OnlyTrumperCanExchange)
      else if length cards \<noteq> 2 then Inr (Some MustExchangeTwo)
      else (case get_player_by_seat s x of
              None \<Rightarrow> Inl AttributeError
            | Some player \<Rightarrow>
                (case find (\<lambda>c. c \<notin> set (hand player)) cards of
                   Some c \<Rightarrow> Inr (Some (DontHave c))
                 | None \<Rightarrow> Inr None)))"

text \<open>\<open>for card in cards_to_give: player.hand.remove(card)\<close>: ValueError at the first card that
  is no longer in the hand.\<close>

fun remove_all_cards :: "Card list \<Rightarrow> Card list \<Rightarrow> exn + Card list" where
  "remove_all_cards [] h = Inr h"
| "remove_all_cards (c # cs) h =
     (if c \<in> set h then remove_all_cards cs (remove1 c h) else Inl ValueError)"

definition exchange_cards :: "GameState \<Rightarrow> int \<Rightarrow> Card list \<Rightarrow> exn + (event \<times> GameState)" where
  "exchange_cards s x cards_to_give =
     (case get_player_by_seat s x of
        None \<Rightarrow> Inl AttributeError
      | Some player \<Rightarrow>
          (case remove_all_cards cards_to_give (hand player) of
             Inl e \<Rightarrow> Inl e
           | Inr h \<Rightarrow>
               (let picked_up = center_pile s;
                    s1 = (set_hand s x (\<lambda>_. h @ picked_up))
                           \<lparr>center_pile := cards_to_give, exchange_done := True, phase := PLAYING\<rparr>
                in case set_first_player s1 of
                     Inl e \<Rightarrow> Inl e
                   | Inr s2 \<Rightarrow>
                       Inr ([(''exchange_done'', PBool True), (''next_phase'', PStr ''PLAYING'')],
                            s2))))"

definition skip_exchange :: "GameState \<Rightarrow> int \<Rightarrow> exn + (reply \<times> GameState)" where
  "skip_exchange s x =
     (if phase s \<noteq> CARD_EXCHANGE then Inr (Err NotInCardExchangePhase, s)
      else if trumper_seat s \<noteq> Some x then Inr (Err OnlyTrumperCanSkip, s)
      else (case set_first_player (s\<lparr>exchange_done := True, phase := PLAYING\<rparr>) of
              Inl e \<Rightarrow> Inl e
            | Inr s1 \<Rightarrow>
                Inr (Ok [(''exchange_skipped'', PBool True), (''next_phase'', PStr ''PLAYING'')],
                     s1)))"

text \<open>\<open>reveal_trump\<close> returns \<open>(True, "")\<close> as \<open>None\<close> and \<open>(False, msg)\<close> as \<open>Some err\<close>. Its
  second argument is not read; the engine also passes \<open>state.trumper_seat\<close>, which may be
  \<open>None\<close>. The trumper is looked up by \<open>state.trumper_seat\<close>; with no such player (or no
  trumper) appending to the hand raises.\<close>

definition reveal_trump :: "GameState \<Rightarrow> int option \<Rightarrow> exn + (error option \<times> GameState)" where
  "reveal_trump s requesting_seat =
     (if trump_revealed s then Inr (Some TrumpAlreadyRevealed, s)
      else if trump_suit s = None then Inr (Some TrumpNotSelected, s)
      else
        (let s1 = s\<lparr>trump_revealed := True\<rparr> in
         case trump_card s1 of
           None \<Rightarrow> Inr (None, s1)
         | Some c \<Rightarrow>
             (case (case trumper_seat s1 of None \<Rightarrow> None | Some t \<Rightarrow> get_player_by_seat s1 t) of
                None \<Rightarrow> Inl AttributeError
              | Some trumper \<Rightarrow> Inr (None, set_hand s1 (seat trumper) (\<lambda>h. h @ [c])))))"

section \<open>Trick play (game\_logic/tricks.py)\<close>

definition get_calling_suit :: "GameState \<Rightarrow> Suit option" where
  "get_calling_suit s = (case current_trick s of [] \<Rightarrow> None | tc # _ \<Rightarrow> Some (suit (tc_card tc)))"

definition get_valid_cards :: "GameState \<Rightarrow> int \<Rightarrow> exn + Card list" where
  "get_valid_cards s x =
     (case get_player_by_seat s x of
        None \<Rightarrow> Inl AttributeError
      | Some player \<Rightarrow>
          (let h = hand player; calling_suit = get_calling_suit s in
           if h = [] then Inr []
           else if calling_suit = None then Inr h
           else (let same_suit = filter (\<lambda>c. Some (suit c) = calling_suit) h in
                 if same_suit \<noteq> [] then Inr same_suit else Inr h)))"

definition validate_play :: "GameState \<Rightarrow> int \<Rightarrow> Card \<Rightarrow> bool \<Rightarrow> exn + error option" where
  "validate_play s x c wants_to_cut =
     (if phase s \<noteq> PLAYING then Inr (Some NotInPlayingPhase)
      else if turn_seat s \<noteq> Some x then Inr (Some NotYourTurn)
      else (case get_player_by_seat s x of
              None \<Rightarrow> Inl AttributeError
            | Some player \<Rightarrow>
                if c \<notin> set (hand player) then Inr (Some DontHaveThatCard)
                else (case get_valid_cards s x of
                        Inl e \<Rightarrow> Inl e
                      | Inr valid \<Rightarrow>
                          if c \<notin> set valid then Inr (Some MustFollowSuit)
                          else (let calling_suit = get_calling_suit s in
                                if calling_suit \<noteq> None \<and> Some (suit c) \<noteq> calling_suit
                                   \<and> wants_to_cut \<and> Some (suit c) = trump_suit s
                                then (if Some x = trumper_seat s
                                      then (if \<not> trump_revealed s then Inr (Some TrumperMustReveal)
                                            else Inr None)
                                      else (if \<not> trump_revealed s
                                            then Inr (Some TrumpMustBeRevealed)
                                            else Inr None))
                                else Inr None))))"

text \<open>The draw loop of the two-seat game: each listed seat takes the front card of the center
  pile until the pile is empty.\<close>

fun draw_loop :: "int list \<Rightarrow> GameState \<Rightarrow> pyval list \<Rightarrow> exn + (pyval list \<times> GameState)" where
  "draw_loop [] s draws = Inr (draws, s)"
| "draw_loop (x # xs) s draws =
     (case center_pile s of
        [] \<Rightarrow> Inr (draws, s)
      | c # rest \<Rightarrow>
          (case get_player_by_seat s x of
             None \<Rightarrow> Inl AttributeError
           | Some player \<Rightarrow>
               draw_loop xs (set_hand (s\<lparr>center_pile := rest\<rparr>) x (\<lambda>h. h @ [c]))
                 (draws @ [PDict [(PStr ''seat'', PInt x), (PStr ''card'', PStr (card_id c))]])))"

definition draw_cards_2p :: "GameState \<Rightarrow> int \<Rightarrow> exn + (pyval list \<times> GameState)" where
  "draw_cards_2p s trick_winner_seat =
     (case next_seat s trick_winner_seat of
        Inl e \<Rightarrow> Inl e
      | Inr n \<Rightarrow> draw_loop [trick_winner_seat, n] s [])"

definition trick_winner :: "GameState \<Rightarrow> TrickCard \<Rightarrow> TrickCard list \<Rightarrow> TrickCard" where
  "trick_winner s first rest =
     foldl (\<lambda>winner_tc tc.
              if beats (tc_card tc) (tc_card winner_tc) (trump_suit s) (trump_revealed s)
                   (suit (tc_card first))
              then tc else winner_tc) first rest"

text \<open>The two-seat test of \<open>_resolve_trick\<close>: both players, looked up by the seats of
  \<open>players[0]\<close> and \<open>players[1]\<close>, have empty hands. In the other modes the test is not made.\<close>

definition two_seat_done :: "GameState \<Rightarrow> exn + bool" where
  "two_seat_done s =
     (if mode s = 2 then
        (case players s of
           p0' # p1' # _ \<Rightarrow>
             (case (get_player_by_seat s (seat p0'), get_player_by_seat s (seat p1')) of
                (Some p0, Some p1) \<Rightarrow> Inr (hand p0 = [] \<and> hand p1 = [])
              | _ \<Rightarrow> Inl AttributeError)
         | _ \<Rightarrow> Inl IndexError)
      else Inr False)"

text \<open>The end of \<open>_resolve_trick\<close>, after the winner's pile is extended and the two-seat
  draw is done.\<close>

definition resolve_game_over :: "GameState \<Rightarrow> int \<Rightarrow> event \<Rightarrow> exn + (event \<times> GameState)" where
  "resolve_game_over s winner_seat result =
     (case two_seat_done s of
        Inl e \<Rightarrow> Inl e
      | Inr True \<Rightarrow> Inr (AList.update ''game_over'' (PBool True) result, s)
      | Inr False \<Rightarrow>
          if trick_number s > 8 \<and> mode s \<noteq> 2 then
            (if \<not> trump_revealed s then
               (case reveal_trump s (trumper_seat s) of
                  Inl e \<Rightarrow> Inl e
                | Inr (_, s1) \<Rightarrow>
                    Inr (AList.update ''game_over'' (PBool True)
                           (AList.update ''trump_revealed_final'' (PBool True) result), s1))
             else Inr (AList.update ''game_over'' (PBool True) result, s))
          else if list_all (\<lambda>p. length (hand p) = 0) (players s) then
            Inr (AList.update ''game_over'' (PBool True) result, s)
          else
            Inr (AList.update ''next_turn'' (PInt winner_seat) result,
                 s\<lparr>turn_seat := Some winner_seat, lead_seat := Some winner_seat\<rparr>))"

definition resolve_trick :: "GameState \<Rightarrow> exn + (event \<times> GameState)" where
  "resolve_trick s =
     (case current_trick s of
        [] \<Rightarrow> Inl IndexError
      | first # rest \<Rightarrow>
          (let winner_tc = trick_winner s first rest;
               winner_seat = tc_seat winner_tc;
               trick_points = sum_list (map (\<lambda>tc. points (tc_card tc)) (current_trick s));
               trick_cards = map tc_card (current_trick s);
               pile = (case map_of (tricks_won s) winner_seat of None \<Rightarrow> [] | Some p \<Rightarrow> p);
               s1 = s\<lparr>tricks_won := AList.update winner_seat (pile @ trick_cards) (tricks_won s),
                      current_trick := [], trick_number := trick_number s + 1\<rparr>;
               result = [(''trick_won'', PBool True), (''winner_seat'', PInt winner_seat),
                         (''trick_points'', PInt trick_points)]
           in if mode s1 = 2 \<and> center_pile s1 \<noteq> [] then
                (case draw_cards_2p s1 winner_seat of
                   Inl e \<Rightarrow> Inl e
                 | Inr (draws, s2) \<Rightarrow>
                     resolve_game_over s2 winner_seat
                       (AList.update ''draws'' (PList draws) result))
              else resolve_game_over s1 winner_seat result))"

definition play_card :: "GameState \<Rightarrow> int \<Rightarrow> Card \<Rightarrow> exn + (event \<times> GameState)" where
  "play_card s x c =
     (case get_player_by_seat s x of
        None \<Rightarrow> Inl AttributeError
      | Some player \<Rightarrow>
          if c \<notin> set (hand player) then Inl ValueError
          else
            (let s1 = set_hand s x (remove1 c);
                 calling_suit = get_calling_suit s1;
                 is_cut = (calling_suit \<noteq> None \<and> Some (suit c) \<noteq> calling_suit
                           \<and> trump_revealed s1 \<and> Some (suit c) = trump_suit s1);
                 s2 = s1\<lparr>current_trick := current_trick s1 @ [TrickCard x c]\<rparr>;
                 result = [(''card_played'', PStr (card_id c)), (''seat'', PInt x),
                           (''is_cut'', PBool is_cut)]
             in if length (current_trick s2) = length (players s2) then
                  (case resolve_trick s2 of
                     Inl e \<Rightarrow> Inl e
                   | Inr (trick_result, s3) \<Rightarrow> Inr (dict_update result trick_result, s3))
                else
                  (case next_seat s2 x of
                     Inl e \<Rightarrow> Inl e
                   | Inr n \<Rightarrow>
                       Inr (AList.update ''next_turn'' (PInt n) result,
                            s2\<lparr>turn_seat := Some n\<rparr>))))"

text \<open>The card \<open>auto_play\<close> picks: \<open>r1\<close> and \<open>r2\<close> are the outcomes of its two
  \<open>random.choice\<close> calls.\<close>

definition auto_play_card :: "GameState \<Rightarrow> Card list \<Rightarrow> nat \<Rightarrow> nat \<Rightarrow> Card" where
  "auto_play_card s valid r1 r2 =
     (let c = choice valid r1; calling_suit = get_calling_suit s in
      if calling_suit \<noteq> None \<and> Some (suit c) \<noteq> calling_suit \<and> \<not> trump_revealed s then
        (let non_trump = filter (\<lambda>c'. Some (suit c') \<noteq> trump_suit s) valid in
         if non_trump \<noteq> [] then choice non_trump r2 else c)
      else c)"

definition auto_play :: "GameState \<Rightarrow> int \<Rightarrow> nat \<Rightarrow> nat \<Rightarrow> exn + (event \<times> GameState)" where
  "auto_play s x r1 r2 =
     (case get_valid_cards s x of
        Inl e \<Rightarrow> Inl e
      | Inr valid \<Rightarrow>
          if valid = [] then Inr ([(''error'', PStr ''No valid cards to play'')], s)
          else play_card s x (auto_play_card s valid r1 r2))"

text \<open>The loop over \<open>tricks_won.items()\<close>: the points of the piles of the trumper's team and
  of everybody else.\<close>

definition calculate_team_points :: "GameState \<Rightarrow> int \<times> int" where
  "calculate_team_points s =
     (let trumper_team = set (get_trumper_team_seats s);
          trumper_points = sum_list (map (\<lambda>(x, cards). sum_list (map points cards))
                             (filter (\<lambda>(x, cards). x \<in> trumper_team) (tricks_won s)));
          opposing_points = sum_list (map (\<lambda>(x, cards). sum_list (map points cards))
                             (filter (\<lambda>(x, cards). x \<notin> trumper_team) (tricks_won s)));
          opposing_points' =
            (if mode s = 3 \<and> exchange_done s \<and> center_pile s \<noteq> []
             then opposing_points + sum_list (map points (center_pile s))
             else opposing_points);
          trumper_points' =
            (case trump_card s of
               Some c \<Rightarrow> if \<not> trump_revealed s then trumper_points + points c else trumper_points
             | None \<Rightarrow> trumper_points)
      in (trumper_points', opposing_points'))"

definition count_suit :: "Suit \<Rightarrow> Card list \<Rightarrow> nat" where
  "count_suit t cards = length (filter (\<lambda>c. suit c = t) cards)"

definition check_spoilt_trump :: "GameState \<Rightarrow> bool" where
  "check_spoilt_trump s =
     (case trump_suit s of
        None \<Rightarrow> False
      | Some t \<Rightarrow>
          (let trumper_team = remdups (get_trumper_team_seats s);
               in_tricks = sum_list (map (\<lambda>(x, cards). count_suit t cards)
                             (filter (\<lambda>(x, cards). x \<in> set trumper_team) (tricks_won s)));
               in_slot = (if trump_card s \<noteq> None \<and> \<not> trump_revealed s then 1 else 0);
               in_hands = sum_list (map (\<lambda>x. case get_player_by_seat s x of
                                                None \<Rightarrow> 0
                                              | Some player \<Rightarrow> count_suit t (hand player))
                                        trumper_team)
           in in_tricks + in_slot + in_hands = 8))"


section \<open>Deck and dealing (game\_logic/deck.py)\<close>

definition create_deck :: "Card list" where
  "create_deck =
     concat (map (\<lambda>s. map (\<lambda>r. Card s r) [SEVEN, EIGHT, QUEEN, KING, TEN, ACE, NINE, JACK])
               [HEARTS, DIAMONDS, CLUBS, SPADES])"

text \<open>One round of the deal: every seat of the deal order takes the next \<open>batch_size\<close> cards
  of the deck (a slice past the end of the deck is shorter or empty).\<close>

fun deal_round :: "nat \<Rightarrow> int list \<Rightarrow> Card list \<Rightarrow> nat \<Rightarrow> GameState \<Rightarrow> exn + (GameState \<times> nat)"
  where
  "deal_round batch_size [] d card_idx s = Inr (s, card_idx)"
| "deal_round batch_size (x # xs) d card_idx s =
     (case get_player_by_seat s x of
        None \<Rightarrow> Inl AttributeError
      | Some player \<Rightarrow>
          deal_round batch_size xs d (card_idx + batch_size)
            (set_hand s x (\<lambda>h. h @ take batch_size (drop card_idx d))))"

fun deal_rounds :: "nat list \<Rightarrow> int list \<Rightarrow> Card list \<Rightarrow> nat \<Rightarrow> GameState \<Rightarrow> exn + (GameState \<times> nat)"
  where
  "deal_rounds [] deal_order d card_idx s = Inr (s, card_idx)"
| "deal_rounds (b # bs) deal_order d card_idx s =
     (case deal_round b deal_order d card_idx s of
        Inl e \<Rightarrow> Inl e
      | Inr (s1, card_idx1) \<Rightarrow> deal_rounds bs deal_order d card_idx1 s1)"

text \<open>\<open>deal\<close>; \<open>d\<close> is the deck that \<open>shuffle_deck(create_deck())\<close> returned, a permutation
  of \<open>create_deck\<close>.\<close>

definition deal :: "GameState \<Rightarrow> Card list \<Rightarrow> exn + GameState" where
  "deal s d =
     (let num_players = length (players s);
          seats = sort (map seat (players s));
          s0 = s\<lparr>players := map (\<lambda>p. p\<lparr>hand := []\<rparr>) (players s), center_pile := []\<rparr>
      in case index_of seats (dealer_seat s) of
           None \<Rightarrow> Inl ValueError
         | Some dealer_idx \<Rightarrow>
             (let deal_order = map (\<lambda>i. seats ! ((dealer_idx + 1 + i) mod num_players))
                                 [0 ..< num_players]
              in if mode s = 2 then
                   (case deal_rounds [4, 4, 2] deal_order d 0 s0 of
                      Inl e \<Rightarrow> Inl e
                    | Inr (s1, card_idx) \<Rightarrow>
                        Inr (s1\<lparr>center_pile := drop card_idx d, deck := []\<rparr>))
                 else if mode s = 3 then
                   (case deal_rounds [4, 4, 2] deal_order d 0 s0 of
                      Inl e \<Rightarrow> Inl e
                    | Inr (s1, card_idx) \<Rightarrow>
                        Inr (s1\<lparr>center_pile := drop card_idx d, deck := []\<rparr>))
                 else if mode s = 4 then
                   (case deal_rounds [4, 4] deal_order d 0 s0 of
                      Inl e \<Rightarrow> Inl e
                    | Inr (s1, card_idx) \<Rightarrow> Inr (s1\<lparr>deck := []\<rparr>))
                 else Inr (s0\<lparr>deck := []\<rparr>)))"

section \<open>Bidding (game\_logic/bidding.py)\<close>

definition MIN_BID :: int where "MIN_BID = 150"
definition MAX_BID :: int where "MAX_BID = 304"
definition BID_STEP :: int where "BID_STEP = 10"
definition SPECIAL_BID_THRESHOLD :: int where "SPECIAL_BID_THRESHOLD = 200"

definition start_bidding :: "GameState \<Rightarrow> exn + GameState" where
  "start_bidding s =
     (case next_seat s (dealer_seat s) of
        Inl e \<Rightarrow> Inl e
      | Inr n \<Rightarrow>
          Inr (s\<lparr>phase := BIDDING, bids := [], current_bid := None, bid_turn_seat := Some n\<rparr>))"

definition get_partner_seat :: "GameState \<Rightarrow> int \<Rightarrow> int option" where
  "get_partner_seat s x = (if mode s \<noteq> 4 then None else Some ((x + 2) mod 4))"

definition player_has_bid :: "GameState \<Rightarrow> int \<Rightarrow> bool" where
  "player_has_bid s x = list_ex (\<lambda>b. bid_seat b = x) (bids s)"

definition bid_amounts :: "Bid list \<Rightarrow> int list" where
  "bid_amounts bs = concat (map (\<lambda>b. case amount b of None \<Rightarrow> [] | Some a \<Rightarrow> [a]) bs)"

definition max_list :: "int list \<Rightarrow> int" where
  "max_list xs = foldl max (hd xs) (tl xs)"

definition highest_bid_amount :: "GameState \<Rightarrow> int" where
  "highest_bid_amount s =
     (let amounts = bid_amounts (bids s) in if amounts \<noteq> [] then max_list amounts else 0)"

definition any_200_plus_bid :: "GameState \<Rightarrow> bool" where
  "any_200_plus_bid s =
     list_ex (\<lambda>b. case amount b of None \<Rightarrow> False | Some a \<Rightarrow> a \<ge> SPECIAL_BID_THRESHOLD) (bids s)"

definition partner_bid_amount :: "GameState \<Rightarrow> int \<Rightarrow> int option" where
  "partner_bid_amount s x =
     (case get_partner_seat s x of
        None \<Rightarrow> None
      | Some partner \<Rightarrow>
          (case find (\<lambda>b. bid_seat b = partner \<and> amount b \<noteq> None) (bids s) of
             None \<Rightarrow> None
           | Some b \<Rightarrow> amount b))"

definition validate_bid :: "GameState \<Rightarrow> int \<Rightarrow> int option \<Rightarrow> error option" where
  "validate_bid s x amt =
     (if phase s \<noteq> BIDDING then Some NotInBiddingPhase
      else if bid_turn_seat s \<noteq> Some x then Some NotYourTurnToBid
      else case amt of
        None \<Rightarrow> None
      | Some a \<Rightarrow>
          if a < MIN_BID then Some (MinimumBid MIN_BID)
          else if a > MAX_BID then Some (MaximumBid MAX_BID)
          else if a \<noteq> MAX_BID \<and> a mod BID_STEP \<noteq> 0 then Some (BidMultiple BID_STEP)
          else
            (let current_highest = highest_bid_amount s in
             if current_highest > 0 \<and> a \<le> current_highest then Some (BidMustExceed current_highest)
             else
               (let has_bid = player_has_bid s x;
                    any_200 = any_200_plus_bid s;
                    is_200_plus = (a \<ge> SPECIAL_BID_THRESHOLD)
                in if has_bid \<and> \<not> (is_200_plus \<and> \<not> any_200) then Some AlreadyBid
                   else
                     (let own_bids = bid_amounts (filter (\<lambda>b. bid_seat b = x) (bids s)) in
                      if own_bids \<noteq> [] \<and>
                         \<not> list_ex (\<lambda>b. case amount b of
                                           None \<Rightarrow> False
                                         | Some a' \<Rightarrow> a' > max_list own_bids \<and> bid_seat b \<noteq> x)
                              (bids s)
                      then Some CannotOverbidYourself
                      else
                        (case partner_bid_amount s x of
                           None \<Rightarrow> None
                         | Some partner_amount \<Rightarrow>
                             if a > partner_amount
                                \<and> \<not> list_ex (\<lambda>b. case amount b of
                                                    None \<Rightarrow> False
                                                  | Some a' \<Rightarrow>
                                                      a' > partner_amount \<and> bid_seat b \<noteq> x
                                                      \<and> Some (bid_seat b) \<noteq> get_partner_seat s x)
                                       (bids s)
                                \<and> \<not> (is_200_plus \<and> \<not> any_200)
                             then Some CannotOverbidPartner
                             else None)))))"

definition conclude_bidding :: "GameState \<Rightarrow> event \<times> GameState" where
  "conclude_bidding s =
     (let s1 = (case current_bid s of
                  None \<Rightarrow>
                    (let forced_bid = Bid (dealer_seat s) (Some MIN_BID) in
                     s\<lparr>bids := bids s @ [forced_bid], current_bid := Some forced_bid\<rparr>)
                | Some _ \<Rightarrow> s);
          s2 = s1\<lparr>trumper_seat := map_option bid_seat (current_bid s1), phase := TRUMP_SELECTION\<rparr>
      in ([(''bidding_complete'', PBool True),
           (''trumper_seat'', opt_val PInt (trumper_seat s2)),
           (''bid'', (case current_bid s2 of None \<Rightarrow> PNone | Some b \<Rightarrow> opt_val PInt (amount b)))],
          s2))"

text \<open>The scan of \<open>_advance_bidding\<close>: at most \<open>n\<close> steps clockwise from \<open>current\<close>, to the
  first seat that has not bid. \<open>next_seat\<close> of no seat raises as \<open>list.index\<close> does.\<close>

fun advance_scan :: "nat \<Rightarrow> GameState \<Rightarrow> int option \<Rightarrow> exn + int option" where
  "advance_scan 0 s current = Inr None"
| "advance_scan (Suc n) s current =
     (case current of
        None \<Rightarrow> Inl ValueError
      | Some c \<Rightarrow>
          (case next_seat s c of
             Inl e \<Rightarrow> Inl e
           | Inr c' \<Rightarrow> if player_has_bid s c' then advance_scan n s (Some c') else Inr (Some c')))"

definition advance_bidding :: "GameState \<Rightarrow> exn + (event \<times> GameState)" where
  "advance_bidding s =
     (case advance_scan (length (players s)) s (bid_turn_seat s) of
        Inl e \<Rightarrow> Inl e
      | Inr (Some c) \<Rightarrow> Inr ([(''next_bidder'', PInt c)], s\<lparr>bid_turn_seat := Some c\<rparr>)
      | Inr None \<Rightarrow> Inr (conclude_bidding s))"

definition place_bid :: "GameState \<Rightarrow> int \<Rightarrow> int option \<Rightarrow> exn + (event \<times> GameState)" where
  "place_bid s x amt =
     (let bid = Bid x amt;
          s1 = s\<lparr>bids := bids s @ [bid]\<rparr>;
          s2 = (if amt \<noteq> None then s1\<lparr>current_bid := Some bid\<rparr> else s1)
      in advance_bidding s2)"

definition get_scoring_points :: "int \<Rightarrow> int \<times> int" where
  "get_scoring_points bid_amount =
     (if bid_amount = 304 then (10, 7) else if bid_amount \<ge> 200 then (6, 5) else (5, 3))"


section \<open>The game state machine (game\_logic/game.py)\<close>

text \<open>\<open>create_game\<close>: the generated game code, the player's uuid and the clock reading are
  injected.\<close>

definition create_game :: "int \<Rightarrow> string \<Rightarrow> string \<Rightarrow> string \<Rightarrow> string \<Rightarrow> exn + (GameState \<times> Player)"
  where
  "create_game mode' creator_name code uuid now =
     (if mode' \<notin> {2, 3, 4} then Inl ValueError
      else
        (let player = \<lparr>player_id = uuid, name = creator_name, seat = 0, connection_id = None,
                        hand = []\<rparr>;
             state = \<lparr>game_code = code, mode = mode', phase = WAITING, players = [player],
                      dealer_seat = 0, deck = [], center_pile = [], bids = [],
                      current_bid = None, bid_turn_seat = None, trumper_seat = None,
                      trump_suit = None, trump_card = None, trump_revealed = False,
                      exchange_done = False, current_trick = [], tricks_won = [],
                      turn_seat = None, turn_deadline = None, trick_number = 0,
                      lead_seat = None,
                      scores = foldl (\<lambda>d i. AList.update i 0 d) [] (map int [0 ..< nat mode']),
                      games_played = 0, created_at = Some now, ttl = None\<rparr>
         in Inr (state, player)))"

definition join_game :: "GameState \<Rightarrow> string \<Rightarrow> string \<Rightarrow> exn + ((error + Player) \<times> GameState)"
  where
  "join_game s player_name uuid =
     (if phase s \<noteq> WAITING then Inr (Inl GameAlreadyStarted, s)
      else if int (length (players s)) \<ge> mode s then Inr (Inl GameIsFull, s)
      else
        (case find (\<lambda>i. i \<notin> set (map seat (players s))) (map int [0 ..< nat (mode s)]) of
           None \<Rightarrow> Inl StopIteration
         | Some x \<Rightarrow>
             (let player = \<lparr>player_id = uuid, name = player_name, seat = x,
                             connection_id = None, hand = []\<rparr>
              in Inr (Inr player, s\<lparr>players := players s @ [player]\<rparr>))))"

text \<open>\<open>start_game\<close>: \<open>r\<close> is the outcome of the random choice of the dealer and \<open>d\<close> the
  shuffled deck.\<close>

definition start_game :: "GameState \<Rightarrow> nat \<Rightarrow> Card list \<Rightarrow> exn + (error option \<times> GameState)" where
  "start_game s r d =
     (if phase s \<noteq> WAITING then Inr (Some GameAlreadyStarted, s)
      else if int (length (players s)) \<noteq> mode s
        then Inr (Some (NeedPlayers (mode s) (length (players s))), s)
      else if players s = [] then Inl IndexError
      else
        (case deal (s\<lparr>dealer_seat := choice (map seat (players s)) r, phase := DEALING\<rparr>) d of
           Inl e \<Rightarrow> Inl e
         | Inr s1 \<Rightarrow>
             (case start_bidding s1 of Inl e \<Rightarrow> Inl e | Inr s2 \<Rightarrow> Inr (None, s2))))"

definition handle_bid :: "GameState \<Rightarrow> int \<Rightarrow> int option \<Rightarrow> exn + (reply \<times> GameState)" where
  "handle_bid s x amt =
     (case validate_bid s x amt of
        Some err \<Rightarrow> Inr (Err err, s)
      | None \<Rightarrow>
          (case place_bid s x amt of Inl e \<Rightarrow> Inl e | Inr (result, s1) \<Rightarrow> Inr (Ok result, s1)))"

definition handle_trump_selection ::
  "GameState \<Rightarrow> int \<Rightarrow> string \<Rightarrow> string \<Rightarrow> exn + (reply \<times> GameState)" where
  "handle_trump_selection s x suit_str cid =
     (case Suit_of suit_str of
        Inl e \<Rightarrow> if e \<in> {ValueError, KeyError} then Inr (Err InvalidSuitOrCard, s) else Inl e
      | Inr su \<Rightarrow>
          (case from_id cid of
             Inl e \<Rightarrow> if e \<in> {ValueError, KeyError} then Inr (Err InvalidSuitOrCard, s) else Inl e
           | Inr c \<Rightarrow>
               (case validate_trump_selection s x su c of
                  Inl e \<Rightarrow> Inl e
                | Inr (Some err) \<Rightarrow> Inr (Err err, s)
                | Inr None \<Rightarrow>
                    (case select_trump s x su c of
                       Inl e \<Rightarrow> Inl e
                     | Inr (result, s1) \<Rightarrow> Inr (Ok result, s1)))))"

text \<open>\<open>[Card.from_id(cid) for cid in card_ids]\<close>: the first exception ends the
  comprehension.\<close>

fun cards_from_ids :: "string list \<Rightarrow> exn + Card list" where
  "cards_from_ids [] = Inr []"
| "cards_from_ids (cid # cids) =
     (case from_id cid of
        Inl e \<Rightarrow> Inl e
      | Inr c \<Rightarrow> (case cards_from_ids cids of Inl e \<Rightarrow> Inl e | Inr cs \<Rightarrow> Inr (c # cs)))"

definition handle_card_exchange ::
  "GameState \<Rightarrow> int \<Rightarrow> string list \<Rightarrow> exn + (reply \<times> GameState)" where
  "handle_card_exchange s x card_ids =
     (case cards_from_ids card_ids of
        Inl e \<Rightarrow> if e \<in> {ValueError, KeyError} then Inr (Err InvalidCard, s) else Inl e
      | Inr cards \<Rightarrow>
          (case validate_card_exchange s x cards of
             Inl e \<Rightarrow> Inl e
           | Inr (Some err) \<Rightarrow> Inr (Err err, s)
           | Inr None \<Rightarrow>
               (case exchange_cards s x cards of
                  Inl e \<Rightarrow> Inl e
                | Inr (result, s1) \<Rightarrow> Inr (Ok result, s1))))"

definition handle_skip_exchange :: "GameState \<Rightarrow> int \<Rightarrow> exn + (reply \<times> GameState)" where
  "handle_skip_exchange s x =
     (case skip_exchange s x of
        Inl e \<Rightarrow> Inl e
      | Inr (Err err, s1) \<Rightarrow> Inr (Err err, s1)
      | Inr (Ok result, s1) \<Rightarrow> Inr (Ok result, s1))"

text \<open>\<open>for seat in team: state.scores[seat] = state.scores.get(seat, 0) + pts\<close>\<close>

definition award :: "int list \<Rightarrow> int \<Rightarrow> (int \<times> int) list \<Rightarrow> (int \<times> int) list" where
  "award team pts sc =
     foldl (\<lambda>d x. AList.update x ((case map_of d x of None \<Rightarrow> 0 | Some v \<Rightarrow> v) + pts) d) sc team"

definition scores_val :: "(int \<times> int) list \<Rightarrow> pyval" where
  "scores_val sc = PDict (map (\<lambda>(k, v). (PInt k, PInt v)) sc)"

definition score_game :: "GameState \<Rightarrow> exn + (event \<times> GameState)" where
  "score_game s =
     (let s1 = s\<lparr>phase := SCORING\<rparr> in
      if check_spoilt_trump s1 then
        Inr ([(''spoilt'', PBool True), (''trumper_points'', PInt 0), (''opposing_points'', PInt 0),
              (''scores'', scores_val (scores s1))], s1)
      else
        (let pts = calculate_team_points s1 in
         case current_bid s1 of
           None \<Rightarrow> Inl AttributeError
         | Some b \<Rightarrow>
             (case amount b of
                None \<Rightarrow> Inl TypeError
              | Some bid_amount \<Rightarrow>
                  (let trumper_points = fst pts;
                       win_points = fst (get_scoring_points bid_amount);
                       lose_points = snd (get_scoring_points bid_amount);
                       trumper_won = (trumper_points \<ge> bid_amount);
                       trumper_team = get_trumper_team_seats s1;
                       opposing_team = get_opposing_team_seats s1;
                       s2 = (if trumper_won
                             then s1\<lparr>scores := award trumper_team win_points (scores s1)\<rparr>
                             else s1\<lparr>scores := award opposing_team lose_points (scores s1)\<rparr>);
                       s3 = s2\<lparr>games_played := games_played s2 + 1\<rparr>
                   in Inr ([(''trumper_won'', PBool trumper_won),
                            (''trumper_points'', PInt trumper_points),
                            (''opposing_points'', PInt (snd pts)),
                            (''bid'', PInt bid_amount),
                            (''points_awarded'', PInt (if trumper_won then win_points else lose_points)),
                            (''scores'', scores_val (scores s3))], s3)))))"

definition handle_play_card :: "GameState \<Rightarrow> int \<Rightarrow> string \<Rightarrow> exn + (reply \<times> GameState)" where
  "handle_play_card s x cid =
     (case from_id cid of
        Inl e \<Rightarrow> if e \<in> {ValueError, KeyError} then Inr (Err InvalidCard, s) else Inl e
      | Inr c \<Rightarrow>
          (let calling_suit = get_calling_suit s;
               wants_to_cut = (calling_suit \<noteq> None \<and> Some (suit c) \<noteq> calling_suit
                               \<and> Some (suit c) = trump_suit s \<and> trump_revealed s)
           in case validate_play s x c wants_to_cut of
                Inl e \<Rightarrow> Inl e
              | Inr (Some err) \<Rightarrow> Inr (Err err, s)
              | Inr None \<Rightarrow>
                  (case play_card s x c of
                     Inl e \<Rightarrow> Inl e
                   | Inr (result, s1) \<Rightarrow>
                       if truthy (dict_get result ''game_over'') then
                         (case score_game s1 of
                            Inl e \<Rightarrow> Inl e
                          | Inr (scoring, s2) \<Rightarrow> Inr (Ok (dict_update result scoring), s2))
                       else Inr (Ok result, s1))))"

definition reveal_event :: "GameState \<Rightarrow> exn + event" where
  "reveal_event s =
     (case trump_suit s of
        None \<Rightarrow> Inl AttributeError
      | Some t \<Rightarrow>
          Inr [(''trump_revealed'', PBool True), (''suit'', PStr (suit_value t)),
               (''trump_card'', opt_val (\<lambda>c. PStr (card_id c)) (trump_card s))])"

text \<open>\<open>handle_ask_trump\<close>. The module imports \<open>get_calling_suit\<close> only inside
  \<open>handle_play_card\<close> (a function-local import), so in \<open>handle_ask_trump\<close> the name is not
  bound: a call that passes the three checks raises \<open>NameError\<close> at the line
  \<open>calling_suit = get_calling_suit(state)\<close> and nothing after that line is ever run.\<close>

definition handle_ask_trump :: "GameState \<Rightarrow> int \<Rightarrow> exn + (reply \<times> GameState)" where
  "handle_ask_trump s x =
     (if trump_revealed s then Inr (Err TrumpAlreadyRevealed, s)
      else if Some x = trumper_seat s then Inr (Err UseRevealInstead, s)
      else if phase s \<noteq> PLAYING then Inr (Err NotInPlayingPhase, s)
      else Inl NameError)"

text \<open>The statements of \<open>handle_ask_trump\<close> from that line on, as they run once the name
  \<open>get_calling_suit\<close> is bound to the function of \<open>tricks.py\<close>. They are kept so that what is
  proved of the games the engine can produce also holds of an engine with the import
  repaired.\<close>

definition ask_trump_reveal :: "GameState \<Rightarrow> int \<Rightarrow> exn + (reply \<times> GameState)" where
  "ask_trump_reveal s x =
     (case get_calling_suit s of
        None \<Rightarrow> Inr (Err NoTrickInProgress, s)
      | Some calling_suit \<Rightarrow>
          (case get_player_by_seat s x of
             None \<Rightarrow> Inl AttributeError
           | Some player \<Rightarrow>
               if list_ex (\<lambda>c. suit c = calling_suit) (hand player)
               then Inr (Err HaveCallingSuit, s)
               else
                 (case reveal_trump s (Some x) of
                    Inl e \<Rightarrow> Inl e
                  | Inr (Some err, s1) \<Rightarrow> Inr (Err err, s1)
                  | Inr (None, s1) \<Rightarrow>
                      (case reveal_event s1 of
                         Inl e \<Rightarrow> Inl e
                       | Inr ev \<Rightarrow> Inr (Ok ev, s1)))))"

definition handle_reveal_trump :: "GameState \<Rightarrow> int \<Rightarrow> exn + (reply \<times> GameState)" where
  "handle_reveal_trump s x =
     (if Some x \<noteq> trumper_seat s then Inr (Err OnlyTrumperCanReveal, s)
      else if phase s \<noteq> PLAYING then Inr (Err NotInPlayingPhase, s)
      else
        (case reveal_trump s (Some x) of
           Inl e \<Rightarrow> Inl e
         | Inr (Some err, s1) \<Rightarrow> Inr (Err err, s1)
         | Inr (None, s1) \<Rightarrow>
             (case reveal_event s1 of Inl e \<Rightarrow> Inl e | Inr ev \<Rightarrow> Inr (Ok ev, s1))))"

definition handle_timeout :: "GameState \<Rightarrow> int \<Rightarrow> nat \<Rightarrow> nat \<Rightarrow> exn + (reply \<times> GameState)" where
  "handle_timeout s x r1 r2 =
     (if turn_seat s \<noteq> Some x then Inr (Err NotThisPlayersTurn, s)
      else
        (case auto_play s x r1 r2 of
           Inl e \<Rightarrow> Inl e
         | Inr (result, s1) \<Rightarrow>
             if truthy (dict_get result ''game_over'') then
               (case score_game s1 of
                  Inl e \<Rightarrow> Inl e
                | Inr (scoring, s2) \<Rightarrow>
                    Inr (Ok (AList.update ''timeout'' (PBool True) (dict_update result scoring)), s2))
             else Inr (Ok (AList.update ''timeout'' (PBool True) result), s1)))"

text \<open>The assignments of \<open>next_game\<close> between the rotation of the dealer and the deal.\<close>

definition next_game_reset :: "GameState \<Rightarrow> GameState" where
  "next_game_reset s =
     s\<lparr>bids := [], current_bid := None, bid_turn_seat := None, trumper_seat := None,
       trump_suit := None, trump_card := None, trump_revealed := False, exchange_done := False,
       current_trick := [], tricks_won := [], turn_seat := None, turn_deadline := None,
       trick_number := 0, lead_seat := None, center_pile := [], phase := DEALING\<rparr>"

definition next_game :: "GameState \<Rightarrow> Card list \<Rightarrow> exn + (error option \<times> GameState)" where
  "next_game s d =
     (if phase s \<noteq> SCORING then Inr (Some CurrentGameNotFinished, s)
      else
        (case next_seat s (dealer_seat s) of
           Inl e \<Rightarrow> Inl e
         | Inr n \<Rightarrow>
             (case deal (next_game_reset (s\<lparr>dealer_seat := n\<rparr>)) d of
                Inl e \<Rightarrow> Inl e
              | Inr s1 \<Rightarrow>
                  (case start_bidding s1 of Inl e \<Rightarrow> Inl e | Inr s2 \<Rightarrow> Inr (None, s2)))))"

text \<open>The loop of \<open>get_player_view\<close> that adds up the points of the piles by team.\<close>

definition team_tricks_points :: "GameState \<Rightarrow> pyval" where
  "team_tricks_points s =
     PDict (foldl (\<lambda>d (x, cards).
                     (let team_key = PStr (if x \<in> set (get_trumper_team_seats s)
                                           then ''trumper'' else ''opposing'');
                          current = (case map_of d team_key of Some (PInt n) \<Rightarrow> n | _ \<Rightarrow> 0)
                      in AList.update team_key (PInt (current + sum_list (map points cards))) d))
              [] (tricks_won s))"

definition trump_fields :: "GameState \<Rightarrow> event" where
  "trump_fields s =
     [(''trump_suit'', opt_val (\<lambda>t. PStr (suit_value t)) (trump_suit s)),
      (''trump_card'', opt_val (\<lambda>c. PStr (card_id c)) (trump_card s))]"

definition get_player_view :: "GameState \<Rightarrow> int \<Rightarrow> exn + event" where
  "get_player_view s x =
     (let player = get_player_by_seat s x;
          view0 =
            [(''game_code'', PStr (game_code s)),
             (''mode'', PInt (mode s)),
             (''phase'', PStr (phase_value (phase s))),
             (''players'', PList (map to_public_dict (players s))),
             (''dealer_seat'', PInt (dealer_seat s)),
             (''your_seat'', PInt x),
             (''your_hand'', PList (case player of
                                      None \<Rightarrow> []
                                    | Some p \<Rightarrow> map (\<lambda>c. PStr (card_id c)) (hand p))),
             (''bids'', PList (map bid_to_dict (bids s))),
             (''current_bid'', opt_val bid_to_dict (current_bid s)),
             (''trumper_seat'', opt_val PInt (trumper_seat s)),
             (''trump_revealed'', PBool (trump_revealed s)),
             (''current_trick'', PList (map tc_to_dict (current_trick s))),
             (''turn_seat'', opt_val PInt (turn_seat s)),
             (''trick_number'', PInt (trick_number s)),
             (''scores'', scores_val (scores s)),
             (''games_played'', PInt (games_played s))];
          view1 = (if trump_revealed s then dict_update view0 (trump_fields s)
                   else if Some x = trumper_seat s then dict_update view0 (trump_fields s)
                   else view0)
      in case (if turn_seat s = Some x \<and> phase s = PLAYING
               then (case get_valid_cards s x of
                       Inl e \<Rightarrow> Inl e
                     | Inr valid \<Rightarrow>
                         Inr (AList.update ''valid_cards''
                                (PList (map (\<lambda>c. PStr (card_id c)) valid)) view1))
               else Inr view1) of
           Inl e \<Rightarrow> Inl e
         | Inr view2 \<Rightarrow>
             (let view3 = (if phase s = BIDDING
                           then AList.update ''bid_turn_seat'' (opt_val PInt (bid_turn_seat s)) view2
                           else view2);
                  view4 = AList.update ''team_tricks_points'' (team_tricks_points s) view3;
                  view5 = (if mode s \<in> {2, 3}
                           then AList.update ''center_pile_count''
                                  (PInt (int (length (center_pile s)))) view4
                           else view4)
              in Inr view5))"


section \<open>Snapshot codec (\_serialization.py)\<close>

text \<open>
  The serialized game is a Python value: a dictionary with string keys whose values are
  strings, numbers, booleans, \<open>None\<close>, lists and dictionaries. The game object is typed, so
  the model reads each field at the type \<open>serialize_game_state\<close> writes it; where Python would
  store a value of another type in the field, the model raises \<open>TypeError\<close>.
\<close>

definition and_then :: "exn + 'a \<Rightarrow> ('a \<Rightarrow> exn + 'b) \<Rightarrow> exn + 'b" where
  "and_then m f = (case m of Inl e \<Rightarrow> Inl e | Inr x \<Rightarrow> f x)"

text \<open>A list comprehension whose body may raise.\<close>

fun map_exn :: "('a \<Rightarrow> exn + 'b) \<Rightarrow> 'a list \<Rightarrow> exn + 'b list" where
  "map_exn f [] = Inr []"
| "map_exn f (x # xs) = and_then (f x) (\<lambda>y. and_then (map_exn f xs) (\<lambda>ys. Inr (y # ys)))"

text \<open>A dictionary comprehension: the pairs are inserted from left to right.\<close>

definition py_dict :: "('k \<times> 'v) list \<Rightarrow> ('k \<times> 'v) list" where
  "py_dict kvs = foldl (\<lambda>d kv. AList.update (fst kv) (snd kv) d) [] kvs"

text \<open>\<open>str(i)\<close> of an integer, and \<open>int(s)\<close> of a string in that form: an optional minus sign
  and decimal digits. (Python's \<open>int\<close> also accepts a plus sign, surrounding white space and
  underscores between digits; the model raises \<open>ValueError\<close> for them.)\<close>

definition digit_char :: "nat \<Rightarrow> char" where
  "digit_char d = ''0123456789'' ! d"

definition digit_val :: "char \<Rightarrow> nat option" where
  "digit_val c = index_of ''0123456789'' c"

function digits_of :: "nat \<Rightarrow> string" where
  "digits_of n = (if n < 10 then [digit_char n] else digits_of (n div 10) @ [digit_char (n mod 10)])"
  by pat_completeness auto
termination
  by (relation "measure id") auto

definition str_int :: "int \<Rightarrow> string" where
  "str_int i = (if i < 0 then CHR ''-'' # digits_of (nat (- i)) else digits_of (nat i))"

fun parse_digits :: "nat \<Rightarrow> string \<Rightarrow> nat option" where
  "parse_digits acc [] = Some acc"
| "parse_digits acc (c # cs) =
     (case digit_val c of None \<Rightarrow> None | Some d \<Rightarrow> parse_digits (acc * 10 + d) cs)"

definition int_of_str :: "string \<Rightarrow> exn + int" where
  "int_of_str s =
     (case s of
        [] \<Rightarrow> Inl ValueError
      | c # cs \<Rightarrow>
          if c = CHR ''-'' then
            (if cs = [] then Inl ValueError
             else case parse_digits 0 cs of None \<Rightarrow> Inl ValueError | Some n \<Rightarrow> Inr (- int n))
          else (case parse_digits 0 s of None \<Rightarrow> Inl ValueError | Some n \<Rightarrow> Inr (int n)))"

text \<open>\<open>int(v)\<close>, \<open>v[k]\<close>, \<open>v.get(k, default)\<close>, \<open>v.items()\<close> and iteration over a list.\<close>

fun py_int :: "pyval \<Rightarrow> exn + int" where
  "py_int (PInt n) = Inr n"
| "py_int (PBool b) = Inr (if b then 1 else 0)"
| "py_int (PStr s) = int_of_str s"
| "py_int _ = Inl TypeError"

fun py_getitem :: "pyval \<Rightarrow> string \<Rightarrow> exn + pyval" where
  "py_getitem (PDict kvs) k = (case map_of kvs (PStr k) of None \<Rightarrow> Inl KeyError | Some v \<Rightarrow> Inr v)"
| "py_getitem _ k = Inl TypeError"

fun py_get :: "pyval \<Rightarrow> string \<Rightarrow> pyval \<Rightarrow> exn + pyval" where
  "py_get (PDict kvs) k dflt = (case map_of kvs (PStr k) of None \<Rightarrow> Inr dflt | Some v \<Rightarrow> Inr v)"
| "py_get _ k dflt = Inl AttributeError"

fun py_items :: "pyval \<Rightarrow> exn + (pyval \<times> pyval) list" where
  "py_items (PDict kvs) = Inr kvs"
| "py_items _ = Inl AttributeError"

fun py_list :: "pyval \<Rightarrow> exn + pyval list" where
  "py_list (PList xs) = Inr xs"
| "py_list _ = Inl TypeError"

text \<open>The typed reads: a string field, an optional string field, an optional integer
  amount.\<close>

fun py_str :: "pyval \<Rightarrow> exn + string" where
  "py_str (PStr s) = Inr s"
| "py_str _ = Inl TypeError"

fun py_opt_str :: "pyval \<Rightarrow> exn + string option" where
  "py_opt_str PNone = Inr None"
| "py_opt_str (PStr s) = Inr (Some s)"
| "py_opt_str _ = Inl TypeError"

fun py_opt_amount :: "pyval \<Rightarrow> exn + int option" where
  "py_opt_amount PNone = Inr None"
| "py_opt_amount (PInt n) = Inr (Some n)"
| "py_opt_amount _ = Inl TypeError"

text \<open>\<open>int(item[k]) if item.get(k) is not None else None\<close>, applied to \<open>item.get(k)\<close>.\<close>

definition py_opt_int :: "pyval \<Rightarrow> exn + int option" where
  "py_opt_int v = (if v \<noteq> PNone then and_then (py_int v) (\<lambda>n. Inr (Some n)) else Inr None)"

text \<open>\<open>GamePhase(v)\<close>, \<open>Suit(v)\<close> and \<open>Card.from_id(v)\<close> of a value.\<close>

fun py_phase :: "pyval \<Rightarrow> exn + GamePhase" where
  "py_phase (PStr s) = GamePhase_of s"
| "py_phase _ = Inl ValueError"

fun py_suit :: "pyval \<Rightarrow> exn + Suit" where
  "py_suit (PStr s) = Suit_of s"
| "py_suit _ = Inl ValueError"

fun py_card :: "pyval \<Rightarrow> exn + Card" where
  "py_card (PStr s) = from_id s"
| "py_card _ = Inl AttributeError"

definition py_cards :: "pyval \<Rightarrow> exn + Card list" where
  "py_cards v = and_then (py_list v) (map_exn py_card)"

definition card_ids :: "Card list \<Rightarrow> pyval" where
  "card_ids cs = PList (map (\<lambda>c. PStr (card_id c)) cs)"

definition serialize_player :: "Player \<Rightarrow> pyval" where
  "serialize_player p =
     PDict [(PStr ''player_id'', PStr (player_id p)),
            (PStr ''name'', PStr (name p)),
            (PStr ''seat'', PInt (seat p)),
            (PStr ''connection_id'', opt_val PStr (connection_id p)),
            (PStr ''hand'', card_ids (hand p))]"

definition serialize_game_state :: "GameState \<Rightarrow> pyval" where
  "serialize_game_state s =
     PDict [(PStr ''game_code'', PStr (game_code s)),
            (PStr ''mode'', PInt (mode s)),
            (PStr ''phase'', PStr (phase_value (phase s))),
            (PStr ''players'', PList (map serialize_player (players s))),
            (PStr ''dealer_seat'', PInt (dealer_seat s)),
            (PStr ''deck'', card_ids (deck s)),
            (PStr ''center_pile'', card_ids (center_pile s)),
            (PStr ''bids'', PList (map bid_to_dict (bids s))),
            (PStr ''current_bid'', opt_val bid_to_dict (current_bid s)),
            (PStr ''bid_turn_seat'', opt_val PInt (bid_turn_seat s)),
            (PStr ''trumper_seat'', opt_val PInt (trumper_seat s)),
            (PStr ''trump_suit'', opt_val (\<lambda>t. PStr (suit_value t)) (trump_suit s)),
            (PStr ''trump_card'', opt_val (\<lambda>c. PStr (card_id c)) (trump_card s)),
            (PStr ''trump_revealed'', PBool (trump_revealed s)),
            (PStr ''exchange_done'', PBool (exchange_done s)),
            (PStr ''current_trick'', PList (map tc_to_dict (current_trick s))),
            (PStr ''tricks_won'',
               PDict (py_dict (map (\<lambda>(x, cards). (PStr (str_int x), card_ids cards))
                                 (tricks_won s)))),
            (PStr ''turn_seat'', opt_val PInt (turn_seat s)),
            (PStr ''turn_deadline'', opt_val PStr (turn_deadline s)),
            (PStr ''trick_number'', PInt (trick_number s)),
            (PStr ''lead_seat'', opt_val PInt (lead_seat s)),
            (PStr ''scores'',
               PDict (py_dict (map (\<lambda>(k, v). (PStr (str_int k), PInt v)) (scores s)))),
            (PStr ''games_played'', PInt (games_played s)),
            (PStr ''created_at'', opt_val PStr (created_at s))]"

definition deserialize_player :: "pyval \<Rightarrow> exn + Player" where
  "deserialize_player p_data =
     and_then (and_then (py_getitem p_data ''player_id'') py_str) (\<lambda>pid.
     and_then (and_then (py_getitem p_data ''name'') py_str) (\<lambda>nm.
     and_then (and_then (py_getitem p_data ''seat'') py_int) (\<lambda>st.
     and_then (and_then (py_get p_data ''connection_id'' PNone) py_opt_str) (\<lambda>conn.
     and_then (and_then (py_get p_data ''hand'' (PList [])) py_cards) (\<lambda>h.
     Inr \<lparr>player_id = pid, name = nm, seat = st, connection_id = conn, hand = h\<rparr>)))))"

definition deserialize_bid :: "pyval \<Rightarrow> exn + Bid" where
  "deserialize_bid b =
     and_then (and_then (py_getitem b ''seat'') py_int) (\<lambda>st.
     and_then (and_then (py_getitem b ''amount'') py_opt_amount) (\<lambda>amt.
     Inr (Bid st amt)))"

definition deserialize_trick_card :: "pyval \<Rightarrow> exn + TrickCard" where
  "deserialize_trick_card tc =
     and_then (and_then (py_getitem tc ''seat'') py_int) (\<lambda>st.
     and_then (and_then (py_getitem tc ''card'') py_card) (\<lambda>c.
     Inr (TrickCard st c)))"

definition deserialize_tricks_won :: "pyval \<Rightarrow> exn + (int \<times> Card list) list" where
  "deserialize_tricks_won v =
     and_then (py_items v) (\<lambda>items.
     and_then (map_exn (\<lambda>kv. and_then (py_int (fst kv)) (\<lambda>k.
                              and_then (py_cards (snd kv)) (\<lambda>cs. Inr (k, cs)))) items) (\<lambda>kvs.
     Inr (py_dict kvs)))"

definition deserialize_scores :: "pyval \<Rightarrow> exn + (int \<times> int) list" where
  "deserialize_scores v =
     and_then (py_items v) (\<lambda>items.
     and_then (map_exn (\<lambda>kv. and_then (py_int (fst kv)) (\<lambda>k.
                              and_then (py_int (snd kv)) (\<lambda>n. Inr (k, n)))) items) (\<lambda>kvs.
     Inr (py_dict kvs)))"

text \<open>The conditional reads: \<open>Suit(item["trump_suit"]) if item.get("trump_suit") else None\<close>
  and its like, applied to \<open>item.get(k)\<close>.\<close>

definition if_truthy :: "(pyval \<Rightarrow> exn + 'a) \<Rightarrow> pyval \<Rightarrow> exn + 'a option" where
  "if_truthy f v = (if truthy v then and_then (f v) (\<lambda>x. Inr (Some x)) else Inr None)"

definition deserialize_game_state :: "pyval \<Rightarrow> exn + GameState" where
  "deserialize_game_state item =
     and_then (and_then (py_getitem item ''game_code'') py_str) (\<lambda>code.
     and_then (and_then (py_getitem item ''mode'') py_int) (\<lambda>mode'.
     and_then (and_then (py_getitem item ''phase'') py_phase) (\<lambda>phase'.
     and_then (and_then (py_getitem item ''dealer_seat'') py_int) (\<lambda>dealer.
     and_then (py_get item ''trump_revealed'' (PBool False)) (\<lambda>revealed.
     and_then (py_get item ''exchange_done'' (PBool False)) (\<lambda>exchanged.
     and_then (and_then (py_get item ''trick_number'' (PInt 0)) py_int) (\<lambda>tn.
     and_then (and_then (py_get item ''games_played'' (PInt 0)) py_int) (\<lambda>gp.
     and_then (and_then (py_get item ''created_at'' PNone) py_opt_str) (\<lambda>created.
     and_then (and_then (and_then (py_get item ''players'' (PList [])) py_list)
                 (map_exn deserialize_player)) (\<lambda>players'.
     and_then (and_then (py_get item ''deck'' (PList [])) py_cards) (\<lambda>deck'.
     and_then (and_then (py_get item ''center_pile'' (PList [])) py_cards) (\<lambda>center.
     and_then (and_then (and_then (py_get item ''bids'' (PList [])) py_list)
                 (map_exn deserialize_bid)) (\<lambda>bids'.
     and_then (and_then (py_get item ''current_bid'' PNone) (if_truthy deserialize_bid)) (\<lambda>cb.
     and_then (and_then (py_get item ''bid_turn_seat'' PNone) py_opt_int) (\<lambda>bts.
     and_then (and_then (py_get item ''trumper_seat'' PNone) py_opt_int) (\<lambda>trumper.
     and_then (and_then (py_get item ''trump_suit'' PNone) (if_truthy py_suit)) (\<lambda>tsuit.
     and_then (and_then (py_get item ''trump_card'' PNone) (if_truthy py_card)) (\<lambda>tcard.
     and_then (and_then (and_then (py_get item ''current_trick'' (PList [])) py_list)
                 (map_exn deserialize_trick_card)) (\<lambda>trick.
     and_then (and_then (py_get item ''tricks_won'' (PDict [])) deserialize_tricks_won) (\<lambda>won.
     and_then (and_then (py_get item ''turn_seat'' PNone) py_opt_int) (\<lambda>turn.
     and_then (and_then (py_get item ''turn_deadline'' PNone) py_opt_str) (\<lambda>deadline.
     and_then (and_then (py_get item ''lead_seat'' PNone) py_opt_int) (\<lambda>lead.
     and_then (and_then (py_get item ''scores'' (PDict [])) deserialize_scores) (\<lambda>scores'.
     Inr \<lparr>game_code = code, mode = mode', phase = phase', players = players',
          dealer_seat = dealer, deck = deck', center_pile = center, bids = bids',
          current_bid = cb, bid_turn_seat = bts, trumper_seat = trumper, trump_suit = tsuit,
          trump_card = tcard, trump_revealed = truthy revealed, exchange_done = truthy exchanged,
          current_trick = trick, tricks_won = won, turn_seat = turn, turn_deadline = deadline,
          trick_number = tn, lead_seat = lead, scores = scores', games_played = gp,
          created_at = created, ttl = None\<rparr>))))))))))))))))))))))))"

section \<open>Notions the properties are stated with\<close>

text \<open>All seats filled as \<open>create_game\<close> and \<open>join_game\<close> fill them: the players of a
  game of mode \<open>m\<close> sit at 0, 1, ..., \<open>m - 1\<close>, in the order they joined.\<close>

definition all_seated :: "GameState \<Rightarrow> bool" where
  "all_seated s = (mode s \<in> {2, 3, 4} \<and> map seat (players s) = map int [0 ..< nat (mode s)])"

definition hand_of :: "GameState \<Rightarrow> int \<Rightarrow> Card list option" where
  "hand_of s x = map_option hand (get_player_by_seat s x)"

text \<open>The batching of the specification: the hand of the \<open>k\<close>-th seat clockwise of the dealer
  (\<open>k = 0\<close> is the dealer's left neighbour) after rounds of 4 and 4 cards (mode 4) or of 4, 4
  and 2 cards (modes 2 and 3) from the deck \<open>d\<close>.\<close>

definition clockwise_hand :: "int \<Rightarrow> nat \<Rightarrow> Card list \<Rightarrow> Card list" where
  "clockwise_hand m k d =
     (if m = 4 then take 4 (drop (4 * k) d) @ take 4 (drop (16 + 4 * k) d)
      else take 4 (drop (4 * k) d) @ take 4 (drop (4 * nat m + 4 * k) d)
           @ take 2 (drop (8 * nat m + 2 * k) d))"

text \<open>The scenario in which the listed seats pass one after the other; the replies are
  collected.\<close>

fun pass_all :: "int list \<Rightarrow> GameState \<Rightarrow> exn + (reply list \<times> GameState)" where
  "pass_all [] s = Inr ([], s)"
| "pass_all (x # xs) s =
     (case handle_bid s x None of
        Inl e \<Rightarrow> Inl e
      | Inr (r, s1) \<Rightarrow>
          (case pass_all xs s1 of Inl e \<Rightarrow> Inl e | Inr (rs, s2) \<Rightarrow> Inr (r # rs, s2)))"

text \<open>The seats clockwise of the dealer, the dealer last.\<close>

definition clockwise_from :: "GameState \<Rightarrow> int list" where
  "clockwise_from s = map (\<lambda>k. (dealer_seat s + 1 + int k) mod mode s) [0 ..< nat (mode s)]"

fun is_Ok :: "reply \<Rightarrow> bool" where
  "is_Ok (Ok _) = True"
| "is_Ok (Err _) = False"

text \<open>The same people at the same seats, hands apart.\<close>

definition same_people :: "GameState \<Rightarrow> GameState \<Rightarrow> bool" where
  "same_people s s' =
     (map player_id (players s') = map player_id (players s)
      \<and> map name (players s') = map name (players s)
      \<and> map seat (players s') = map seat (players s)
      \<and> map connection_id (players s') = map connection_id (players s))"

text \<open>Every place a card can be: the hands, the center pile, the piles of tricks won, the
  current trick, and the trump slot while the trump card is concealed.\<close>

definition trump_slot :: "Card option \<Rightarrow> bool \<Rightarrow> Card list" where
  "trump_slot tc revealed = (case tc of None \<Rightarrow> [] | Some c \<Rightarrow> if revealed then [] else [c])"

definition all_cards :: "GameState \<Rightarrow> Card list" where
  "all_cards s =
     concat (map hand (players s)) @ center_pile s @ concat (map snd (tricks_won s))
     @ map tc_card (current_trick s) @ trump_slot (trump_card s) (trump_revealed s)"

section \<open>The session layer (handlers/websocket.py, handlers/rest.py)\<close>

text \<open>\<open>_on_connect\<close> and \<open>_on_disconnect\<close> set the connection handle of the player with the
  given id; \<open>_schedule_turn_timer\<close> sets the turn deadline; \<open>_create_game\<close> draws a new game
  code while the code is taken.\<close>

fun update_player_by_id :: "string \<Rightarrow> (Player \<Rightarrow> Player) \<Rightarrow> Player list \<Rightarrow> Player list" where
  "update_player_by_id pid f [] = []"
| "update_player_by_id pid f (p # ps) =
     (if player_id p = pid then f p # ps else p # update_player_by_id pid f ps)"

definition set_connection :: "GameState \<Rightarrow> string \<Rightarrow> string option \<Rightarrow> GameState" where
  "set_connection s pid conn =
     s\<lparr>players := update_player_by_id pid (\<lambda>p. p\<lparr>connection_id := conn\<rparr>) (players s)\<rparr>"

definition schedule_turn_timer :: "GameState \<Rightarrow> string \<Rightarrow> GameState" where
  "schedule_turn_timer s deadline = s\<lparr>turn_deadline := Some deadline\<rparr>"

section \<open>Reachable games\<close>

text \<open>The games the engine can produce: a created game, and whatever a successful operation
  makes of a reachable game. A shuffled deck is any permutation of \<open>create_deck\<close>; the random
  choices are arbitrary. An operation that returns an error or raises produces no game.
  \<open>handle_ask_trump\<close> as written never succeeds; the rule \<open>asked_repaired\<close> adds the games
  it produces once its import is repaired, so the reachable games are those of both
  engines.\<close>

inductive reachable :: "GameState \<Rightarrow> bool" where
  created: "create_game m creator code uuid now = Inr (s, p) \<Longrightarrow> reachable s"
| recoded: "reachable s \<Longrightarrow> phase s = WAITING \<Longrightarrow> reachable (s\<lparr>game_code := code\<rparr>)"
| joined: "reachable s \<Longrightarrow> join_game s player_name uuid = Inr (Inr p, s') \<Longrightarrow> reachable s'"
| connected: "reachable s \<Longrightarrow> reachable (set_connection s pid conn)"
| scheduled: "reachable s \<Longrightarrow> phase s = PLAYING \<Longrightarrow> turn_seat s \<noteq> None \<Longrightarrow>
    reachable (schedule_turn_timer s deadline)"
| started: "reachable s \<Longrightarrow> mset d = mset create_deck \<Longrightarrow> start_game s r d = Inr (None, s') \<Longrightarrow>
    reachable s'"
| bid: "reachable s \<Longrightarrow> handle_bid s x amt = Inr (Ok ev, s') \<Longrightarrow> reachable s'"
| trump_selected: "reachable s \<Longrightarrow> handle_trump_selection s x suit_str cid = Inr (Ok ev, s') \<Longrightarrow>
    reachable s'"
| exchanged: "reachable s \<Longrightarrow> handle_card_exchange s x cids = Inr (Ok ev, s') \<Longrightarrow> reachable s'"
| exchange_skipped: "reachable s \<Longrightarrow> handle_skip_exchange s x = Inr (Ok ev, s') \<Longrightarrow> reachable s'"
| played: "reachable s \<Longrightarrow> handle_play_card s x cid = Inr (Ok ev, s') \<Longrightarrow> reachable s'"
| asked: "reachable s \<Longrightarrow> handle_ask_trump s x = Inr (Ok ev, s') \<Longrightarrow> reachable s'"
| asked_repaired: "reachable s \<Longrightarrow> \<not> trump_revealed s \<Longrightarrow> Some x \<noteq> trumper_seat s \<Longrightarrow>
    phase s = PLAYING \<Longrightarrow> ask_trump_reveal s x = Inr (Ok ev, s') \<Longrightarrow> reachable s'"
| revealed: "reachable s \<Longrightarrow> handle_reveal_trump s x = Inr (Ok ev, s') \<Longrightarrow> reachable s'"
| timed_out: "reachable s \<Longrightarrow> handle_timeout s x r1 r2 = Inr (Ok ev, s') \<Longrightarrow> reachable s'"
| next_started: "reachable s \<Longrightarrow> mset d = mset create_deck \<Longrightarrow> next_game s d = Inr (None, s') \<Longrightarrow>
    reachable s'"

text \<open>What holds of every reachable game beside card conservation: no expiry time is ever
  set on the game object, the two dictionaries have distinct keys, a game that has not started
  has no trick, pile, trump card or turn, a started game has all its seats filled, there is no
  trump card before trump selection is over, and a concealed trump card is of the trump
  suit.\<close>

definition game_inv :: "GameState \<Rightarrow> bool" where
  "game_inv s =
     (ttl s = None \<and> deck s = [] \<and> distinct (map fst (tricks_won s))
      \<and> distinct (map fst (scores s))
      \<and> mode s \<in> {2, 3, 4}
      \<and> (phase s = WAITING \<longrightarrow>
            tricks_won s = [] \<and> current_trick s = [] \<and> trump_card s = None \<and> turn_seat s = None)
      \<and> (phase s \<noteq> WAITING \<longrightarrow>
            int (length (players s)) = mode s \<and> mset (all_cards s) = mset create_deck)
      \<and> (phase s \<in> {BIDDING, TRUMP_SELECTION} \<longrightarrow> trump_card s = None)
      \<and> (\<forall>c. trump_card s = Some c \<and> \<not> trump_revealed s \<longrightarrow> trump_suit s = Some (suit c)))"

text \<open>The cards that have been played: those of the current trick and of the piles of tricks
  won. The current trick is seated when each of its cards was played from a seat that has a
  player.\<close>

definition played_cards :: "GameState \<Rightarrow> Card list" where
  "played_cards s = map tc_card (current_trick s) @ concat (map snd (tricks_won s))"

definition trick_seated :: "GameState \<Rightarrow> bool" where
  "trick_seated s = list_all (\<lambda>tc. tc_seat tc \<in> set (map seat (players s))) (current_trick s)"

text \<open>What a card play, a draw or a reveal may change: hands, piles, trick and turn. The
  seats stay the same seats, the cards stay the same cards, a played card stays played and a
  revealed trump stays revealed.\<close>

definition moved :: "GameState \<Rightarrow> GameState \<Rightarrow> bool" where
  "moved s s' =
     (\<exists>ps cp tw ct ts ls tn tr.
        s' = s\<lparr>players := ps, center_pile := cp, tricks_won := tw, current_trick := ct,
               turn_seat := ts, lead_seat := ls, trick_number := tn, trump_revealed := tr\<rparr>
        \<and> map seat ps = map seat (players s)
        \<and> (trump_revealed s \<longrightarrow> tr)
        \<and> (distinct (map fst (tricks_won s)) \<longrightarrow> distinct (map fst tw))
        \<and> (trick_seated s \<longrightarrow> trick_seated s')
        \<and> set (played_cards s) \<subseteq> set (played_cards s')
        \<and> mset (all_cards s') = mset (all_cards s))"

text \<open>What the play of a card relies on beside \<open>game_inv\<close>: the cards of the current trick
  were played from seats that have a player, a trump card was put down by a trumper who has a
  seat, a bid that stands has an amount, a game past bidding has a standing bid, and a game
  that has not started has no trump suit.\<close>

definition play_inv :: "GameState \<Rightarrow> bool" where
  "play_inv s =
     (trick_seated s
      \<and> (trump_card s \<noteq> None \<longrightarrow>
            (\<exists>t. trumper_seat s = Some t \<and> t \<in> set (map seat (players s))))
      \<and> (\<forall>b. current_bid s = Some b \<longrightarrow> amount b \<noteq> None)
      \<and> (phase s = TRUMP_SELECTION \<or> trump_suit s \<noteq> None \<longrightarrow> current_bid s \<noteq> None)
      \<and> (phase s = WAITING \<longrightarrow> trump_suit s = None))"

text \<open>The cards in the possession of the trumper's team, as the specification counts them:
  the piles of tricks won by its seats, the trump card while it is concealed, and the hands of
  its seats.\<close>

definition trumper_team_cards :: "GameState \<Rightarrow> Card list" where
  "trumper_team_cards s =
     (let team = remdups (get_trumper_team_seats s) in
      concat (map snd (filter (\<lambda>(x, cards). x \<in> set team) (tricks_won s)))
      @ trump_slot (trump_card s) (trump_revealed s)
      @ concat (map (\<lambda>x. case get_player_by_seat s x of None \<Rightarrow> [] | Some p \<Rightarrow> hand p) team))"

section \<open>Example games\<close>

text \<open>Four seated players with empty hands, and a game in the playing phase as the engine's
  own tests build it: trump is hearts and concealed, seat 0 is dealer and trumper, seat 1 has
  led the jack of spades and seat 2, void in spades, is to play.\<close>

definition ex_player :: "int \<Rightarrow> Card list \<Rightarrow> Player" where
  "ex_player i h =
     \<lparr>player_id = ''p'', name = ''Player'', seat = i, connection_id = None, hand = h\<rparr>"

definition ex_playing :: GameState where
  "ex_playing =
     \<lparr>game_code = ''TEST01'', mode = 4, phase = PLAYING,
      players = [ex_player 0 [Card SPADES EIGHT], ex_player 1 [],
                 ex_player 2 [Card HEARTS JACK, Card CLUBS ACE], ex_player 3 [Card SPADES SEVEN]],
      dealer_seat = 0, deck = [], center_pile = [], bids = [Bid 0 (Some 160)],
      current_bid = Some (Bid 0 (Some 160)), bid_turn_seat = None, trumper_seat = Some 0,
      trump_suit = Some HEARTS, trump_card = Some (Card HEARTS SEVEN), trump_revealed = False,
      exchange_done = False, current_trick = [TrickCard 1 (Card SPADES JACK)], tricks_won = [],
      turn_seat = Some 2, turn_deadline = None, trick_number = 1, lead_seat = Some 1,
      scores = [(0, 0), (1, 0), (2, 0), (3, 0)], games_played = 0, created_at = None,
      ttl = None\<rparr>"

text \<open>The same game after its last trick, waiting for \<open>next_game\<close>.\<close>

definition ex_scoring :: GameState where
  "ex_scoring = ex_playing\<lparr>phase := SCORING\<rparr>"

text \<open>A lobby as \<open>create_game\<close> makes it, and the lobby with all four seats taken.\<close>

definition ex_lobby :: GameState where
  "ex_lobby =
     \<lparr>game_code = ''ABC123'', mode = 4, phase = WAITING,
      players = [\<lparr>player_id = ''u0'', name = ''Alice'', seat = 0, connection_id = None, hand = []\<rparr>],
      dealer_seat = 0, deck = [], center_pile = [], bids = [],
      current_bid = None, bid_turn_seat = None, trumper_seat = None,
      trump_suit = None, trump_card = None, trump_revealed = False,
      exchange_done = False, current_trick = [], tricks_won = [],
      turn_seat = None, turn_deadline = None, trick_number = 0, lead_seat = None,
      scores = [(0, 0), (1, 0), (2, 0), (3, 0)], games_played = 0, created_at = Some ''t0'',
      ttl = None\<rparr>"

definition ex_full :: GameState where
  "ex_full = ex_lobby\<lparr>players :=
     [\<lparr>player_id = ''u0'', name = ''Alice'', seat = 0, connection_id = None, hand = []\<rparr>,
      \<lparr>player_id = ''u1'', name = ''Bob'', seat = 1, connection_id = None, hand = []\<rparr>,
      \<lparr>player_id = ''u2'', name = ''Carol'', seat = 2, connection_id = None, hand = []\<rparr>,
      \<lparr>player_id = ''u3'', name = ''Dave'', seat = 3, connection_id = None, hand = []\<rparr>]\<rparr>"

text \<open>The end of a four-seat game in which seats 0 and 2, the trumper's team, have taken all
  eight hearts, hearts being trump.\<close>

definition ex_spoilt :: GameState where
  "ex_spoilt = ex_playing\<lparr>
     players := [ex_player 0 [], ex_player 1 [], ex_player 2 [], ex_player 3 []],
     current_trick := [], trump_card := Some (Card HEARTS SEVEN), trump_revealed := True,
     tricks_won := [(0, [Card HEARTS SEVEN, Card HEARTS EIGHT, Card HEARTS QUEEN, Card HEARTS KING]),
                    (2, [Card HEARTS TEN, Card HEARTS ACE, Card HEARTS NINE, Card HEARTS JACK])]\<rparr>"

text \<open>A game played from the full lobby: seat 0 is drawn as dealer and the deck is dealt
  unshuffled; everybody passes, so the dealer is trumper with the forced bid; the trumper puts
  down the ten of diamonds as trump; seat 1 leads the seven of hearts and seat 2 follows with
  the ten. Seat 3 is then to play, holds no heart, and holds four cards of the concealed trump
  suit.\<close>

definition ex_dealt :: GameState where
  "ex_dealt = ex_full\<lparr>phase := BIDDING, bid_turn_seat := Some 1, players :=
     [\<lparr>player_id = ''u0'', name = ''Alice'', seat = 0, connection_id = None,
        hand = [Card DIAMONDS TEN, Card DIAMONDS ACE, Card DIAMONDS NINE, Card DIAMONDS JACK,
                Card SPADES TEN, Card SPADES ACE, Card SPADES NINE, Card SPADES JACK]\<rparr>,
      \<lparr>player_id = ''u1'', name = ''Bob'', seat = 1, connection_id = None,
        hand = [Card HEARTS SEVEN, Card HEARTS EIGHT, Card HEARTS QUEEN, Card HEARTS KING,
                Card CLUBS SEVEN, Card CLUBS EIGHT, Card CLUBS QUEEN, Card CLUBS KING]\<rparr>,
      \<lparr>player_id = ''u2'', name = ''Carol'', seat = 2, connection_id = None,
        hand = [Card HEARTS TEN, Card HEARTS ACE, Card HEARTS NINE, Card HEARTS JACK,
                Card CLUBS TEN, Card CLUBS ACE, Card CLUBS NINE, Card CLUBS JACK]\<rparr>,
      \<lparr>player_id = ''u3'', name = ''Dave'', seat = 3, connection_id = None,
        hand = [Card DIAMONDS SEVEN, Card DIAMONDS EIGHT, Card DIAMONDS QUEEN,
                Card DIAMONDS KING, Card SPADES SEVEN, Card SPADES EIGHT, Card SPADES QUEEN,
                Card SPADES KING]\<rparr>]\<rparr>"

definition ex_passed :: GameState where
  "ex_passed = ex_dealt\<lparr>phase := TRUMP_SELECTION,
     bids := [Bid 1 None, Bid 2 None, Bid 3 None, Bid 0 None, Bid 0 (Some 150)],
     current_bid := Some (Bid 0 (Some 150)), bid_turn_seat := Some 0, trumper_seat := Some 0\<rparr>"

definition ex_concealed :: GameState where
  "ex_concealed = ex_passed\<lparr>phase := PLAYING, trump_suit := Some DIAMONDS,
     trump_card := Some (Card DIAMONDS TEN), trick_number := 1, lead_seat := Some 1,
     turn_seat := Some 3,
     current_trick := [TrickCard 1 (Card HEARTS SEVEN), TrickCard 2 (Card HEARTS TEN)],
     players :=
     [\<lparr>player_id = ''u0'', name = ''Alice'', seat = 0, connection_id = None,
        hand = [Card DIAMONDS ACE, Card DIAMONDS NINE, Card DIAMONDS JACK,
                Card SPADES TEN, Card SPADES ACE, Card SPADES NINE, Card SPADES JACK]\<rparr>,
      \<lparr>player_id = ''u1'', name = ''Bob'', seat = 1, connection_id = None,
        hand = [Card HEARTS EIGHT, Card HEARTS QUEEN, Card HEARTS KING,
                Card CLUBS SEVEN, Card CLUBS EIGHT, Card CLUBS QUEEN, Card CLUBS KING]\<rparr>,
      \<lparr>player_id = ''u2'', name = ''Carol'', seat = 2, connection_id = None,
        hand = [Card HEARTS ACE, Card HEARTS NINE, Card HEARTS JACK,
                Card CLUBS TEN, Card CLUBS ACE, Card CLUBS NINE, Card CLUBS JACK]\<rparr>,
      \<lparr>player_id = ''u3'', name = ''Dave'', seat = 3, connection_id = None,
        hand = [Card DIAMONDS SEVEN, Card DIAMONDS EIGHT, Card DIAMONDS QUEEN,
                Card DIAMONDS KING, Card SPADES SEVEN, Card SPADES EIGHT, Card SPADES QUEEN,
                Card SPADES KING]\<rparr>]\<rparr>"

section \<open>Auto-play on timeout\<close>

lemma choice_mem: "xs \<noteq> [] \<Longrightarrow> choice xs r \<in> set xs"
  by (simp add: choice_def)

lemma valid_cards_uniform:
  assumes "get_valid_cards s x = Inr valid" and "get_calling_suit s = Some cs"
  shows "(\<forall>c \<in> set valid. suit c = cs) \<or> (\<forall>c \<in> set valid. suit c \<noteq> cs)"
  using assms
  by (auto simp: get_valid_cards_def Let_def filter_empty_conv split: option.splits if_splits)

text \<open>
  C8. When trump is concealed, a calling suit has been led and some legal card of the seat is
  not of the trump suit, \<open>auto_play\<close> plays a legal card that is not of the trump suit, whatever
  the two random choices \<open>r1\<close>, \<open>r2\<close> turn out to be.
\<close>

theorem auto_play_avoids_concealed_trump:
  assumes "phase s = PLAYING"
    and "\<not> trump_revealed s"
    and "get_calling_suit s \<noteq> None"
    and "get_valid_cards s x = Inr valid"
    and "\<exists>c \<in> set valid. Some (suit c) \<noteq> trump_suit s"
  shows "\<exists>c. c \<in> set valid \<and> Some (suit c) \<noteq> trump_suit s
             \<and> auto_play s x r1 r2 = play_card s x c"
proof -
  obtain cs where cs: "get_calling_suit s = Some cs" using assms(3) by auto
  from assms(5) have ne: "valid \<noteq> []" by auto
  let ?c = "choice valid r1"
  let ?nt = "filter (\<lambda>c'. Some (suit c') \<noteq> trump_suit s) valid"
  have c_in: "?c \<in> set valid" using ne by (rule choice_mem)
  have nt_ne: "?nt \<noteq> []" using assms(5) by (auto simp: filter_empty_conv)
  have ap: "auto_play s x r1 r2 = play_card s x (auto_play_card s valid r1 r2)"
    using assms(4) ne by (simp add: auto_play_def)
  show ?thesis
  proof (cases "suit ?c = cs")
    case True
    then have pick: "auto_play_card s valid r1 r2 = ?c"
      by (simp add: auto_play_card_def Let_def cs)
    from valid_cards_uniform[OF assms(4) cs] c_in True
    have all: "\<forall>c \<in> set valid. suit c = cs" by auto
    with assms(5) have "Some cs \<noteq> trump_suit s" by auto
    with True have "Some (suit ?c) \<noteq> trump_suit s" by simp
    with c_in pick ap show ?thesis by auto
  next
    case False
    then have pick: "auto_play_card s valid r1 r2 = choice ?nt r2"
      using nt_ne assms(2) by (simp add: auto_play_card_def Let_def cs)
    have "choice ?nt r2 \<in> set ?nt" using nt_ne by (rule choice_mem)
    then have "choice ?nt r2 \<in> set valid \<and> Some (suit (choice ?nt r2)) \<noteq> trump_suit s"
      by simp
    with pick ap show ?thesis by auto
  qed
qed

lemma ex_playing_valid:
  "get_valid_cards ex_playing 2 = Inr [Card HEARTS JACK, Card CLUBS ACE]"
  by (simp add: get_valid_cards_def get_player_by_seat_def get_calling_suit_def ex_playing_def
      ex_player_def)

theorem auto_play_avoids_concealed_trump_witness:
  "phase ex_playing = PLAYING \<and> \<not> trump_revealed ex_playing
   \<and> get_calling_suit ex_playing \<noteq> None
   \<and> (\<exists>c. c \<in> set [Card HEARTS JACK, Card CLUBS ACE] \<and> Some (suit c) \<noteq> trump_suit ex_playing
         \<and> auto_play ex_playing 2 0 0 = play_card ex_playing 2 c)"
proof -
  have h1: "phase ex_playing = PLAYING" by (simp add: ex_playing_def)
  have h2: "\<not> trump_revealed ex_playing" by (simp add: ex_playing_def)
  have h3: "get_calling_suit ex_playing \<noteq> None"
    by (simp add: get_calling_suit_def ex_playing_def)
  have h5: "\<exists>c \<in> set [Card HEARTS JACK, Card CLUBS ACE]. Some (suit c) \<noteq> trump_suit ex_playing"
    by (simp add: ex_playing_def)
  from auto_play_avoids_concealed_trump[OF h1 h2 h3 ex_playing_valid h5, of 0 0] h1 h2 h3
  show ?thesis by blast
qed

section \<open>The per-seat view\<close>

lemma dict_update_keys: "fst ` set (dict_update d other) = fst ` set d \<union> fst ` set other"
  unfolding dict_update_def
  by (induction other arbitrary: d) (auto simp: dom_update)

lemma view_keys:
  assumes "get_player_view s x = Inr view"
  shows "(''trump_suit'' \<in> fst ` set view) = (trump_revealed s \<or> Some x = trumper_seat s)"
    and "(''trump_card'' \<in> fst ` set view) = (trump_revealed s \<or> Some x = trumper_seat s)"
  using assms
  by (auto simp: get_player_view_def Let_def dom_update dict_update_keys trump_fields_def
      split: if_splits sum.splits)

text \<open>
  C7. The view of seat \<open>x\<close> has the keys \<open>trump_suit\<close> and \<open>trump_card\<close> if and only if trump
  is revealed or \<open>x\<close> is the trumper; so a seat that is not the trumper sees neither while
  trump is concealed. The view exists for every seat that has a player.
\<close>

theorem view_hides_concealed_trump:
  "(get_player_by_seat s x \<noteq> None \<longrightarrow> (\<exists>view. get_player_view s x = Inr view))
   \<and> (\<forall>view. get_player_view s x = Inr view \<longrightarrow>
        ((''trump_suit'' \<in> fst ` set view) = (trump_revealed s \<or> Some x = trumper_seat s))
      \<and> ((''trump_card'' \<in> fst ` set view) = (trump_revealed s \<or> Some x = trumper_seat s)))"
proof -
  have "get_player_by_seat s x \<noteq> None \<Longrightarrow> \<exists>view. get_player_view s x = Inr view"
    by (auto simp: get_player_view_def Let_def get_valid_cards_def split: option.splits)
  then show ?thesis using view_keys by blast
qed

theorem view_hides_concealed_trump_witness:
  "get_player_by_seat ex_playing 2 \<noteq> None \<and> \<not> trump_revealed ex_playing
   \<and> Some 2 \<noteq> trumper_seat ex_playing
   \<and> (\<exists>view. get_player_view ex_playing 2 = Inr view
         \<and> ''trump_suit'' \<notin> fst ` set view \<and> ''trump_card'' \<notin> fst ` set view)"
proof -
  have h1: "get_player_by_seat ex_playing 2 \<noteq> None"
    by (simp add: get_player_by_seat_def ex_playing_def ex_player_def)
  have h2: "\<not> trump_revealed ex_playing" "Some 2 \<noteq> trumper_seat ex_playing"
    by (simp_all add: ex_playing_def)
  from view_hides_concealed_trump[of ex_playing 2] h1 h2 show ?thesis by blast
qed

section \<open>Dealing\<close>

lemma upt_small: "[0..<4] = [0, 1, 2, 3]" "[0..<3] = [0, 1, 2]" "[0..<2] = [0, 1]"
  by (simp_all add: upt_rec)

lemma seated_cases:
  assumes "all_seated s"
  obtains
    (two) p0 p1 where "mode s = 2" "players s = [p0, p1]" "seat p0 = 0" "seat p1 = 1"
  | (three) p0 p1 p2 where "mode s = 3" "players s = [p0, p1, p2]"
      "seat p0 = 0" "seat p1 = 1" "seat p2 = 2"
  | (four) p0 p1 p2 p3 where "mode s = 4" "players s = [p0, p1, p2, p3]"
      "seat p0 = 0" "seat p1 = 1" "seat p2 = 2" "seat p3 = 3"
proof -
  from assms consider "mode s = 2" | "mode s = 3" | "mode s = 4"
    by (auto simp: all_seated_def)
  then show thesis
  proof cases
    case 1
    with assms have "map seat (players s) = [0, 1]" by (simp add: all_seated_def upt_small)
    then show thesis using 1 two by (auto simp: map_eq_Cons_conv)
  next
    case 2
    with assms have "map seat (players s) = [0, 1, 2]" by (simp add: all_seated_def upt_small)
    then show thesis using 2 three by (auto simp: map_eq_Cons_conv)
  next
    case 3
    with assms have "map seat (players s) = [0, 1, 2, 3]" by (simp add: all_seated_def upt_small)
    then show thesis using 3 four by (auto simp: map_eq_Cons_conv)
  qed
qed

lemma length_create_deck: "length create_deck = 32"
  by (simp add: create_deck_def)

lemma ex_full_seated: "all_seated ex_full"
  by (simp add: all_seated_def ex_full_def ex_lobby_def upt_small)

text \<open>
  C9. With all seats filled and any shuffled deck \<open>d\<close>, \<open>deal\<close> succeeds and leaves the
  \<open>deck\<close> field empty; the \<open>k\<close>-th seat clockwise of the dealer holds its batches of the deck
  (the deal starts at the dealer's left neighbour); every hand has 8 cards and the center pile
  none in mode 4, every hand has 10 cards and the center pile 2 in mode 3 and 12 in mode 2.
\<close>

theorem deal_hand_sizes:
  assumes seated: "all_seated s"
    and dealer: "dealer_seat s \<in> set (map seat (players s))"
    and shuffled: "mset d = mset create_deck"
  shows "\<exists>s'. deal s d = Inr s' \<and> deck s' = []
           \<and> map (\<lambda>k. hand_of s' ((dealer_seat s + 1 + int k) mod mode s)) [0 ..< nat (mode s)]
               = map (\<lambda>k. Some (clockwise_hand (mode s) k d)) [0 ..< nat (mode s)]
           \<and> list_all (\<lambda>p. length (hand p) = (if mode s = 4 then 8 else 10)) (players s')
           \<and> center_pile s' = drop (if mode s = 4 then 32 else 10 * nat (mode s)) d
           \<and> length (center_pile s') = (if mode s = 4 then 0 else if mode s = 3 then 2 else 12)"
proof -
  have len: "length d = 32"
    using shuffled length_create_deck by (metis size_mset)
  note defs = deal_def Let_def upt_small get_player_by_seat_def set_hand_def clockwise_hand_def
    hand_of_def mod_Suc
  from seated show ?thesis
  proof (cases rule: seated_cases)
    case (two p0 p1)
    from dealer two consider "dealer_seat s = 0" | "dealer_seat s = 1" by auto
    then show ?thesis
      by cases (use two len in \<open>simp_all add: defs\<close>)
  next
    case (three p0 p1 p2)
    from dealer three consider "dealer_seat s = 0" | "dealer_seat s = 1" | "dealer_seat s = 2"
      by auto
    then show ?thesis
      by cases (use three len in \<open>simp_all add: defs\<close>)
  next
    case (four p0 p1 p2 p3)
    from dealer four consider "dealer_seat s = 0" | "dealer_seat s = 1" | "dealer_seat s = 2"
      | "dealer_seat s = 3"
      by auto
    then show ?thesis
      by cases (use four len in \<open>simp_all add: defs\<close>)
  qed
qed

theorem deal_hand_sizes_witness:
  "all_seated ex_full \<and> dealer_seat ex_full \<in> set (map seat (players ex_full))
   \<and> (\<exists>s'. deal ex_full create_deck = Inr s' \<and> deck s' = []
         \<and> list_all (\<lambda>p. length (hand p) = 8) (players s') \<and> length (center_pile s') = 0)"
proof -
  have h2: "dealer_seat ex_full \<in> set (map seat (players ex_full))"
    by (simp add: ex_full_def ex_lobby_def)
  have m: "mode ex_full = 4" by (simp add: ex_full_def ex_lobby_def)
  from deal_hand_sizes[OF ex_full_seated h2 refl] obtain s' where
    "deal ex_full create_deck = Inr s'" "deck s' = []"
    "list_all (\<lambda>p. length (hand p) = (if mode ex_full = 4 then 8 else 10)) (players s')"
    "length (center_pile s') = (if mode ex_full = 4 then 0 else if mode ex_full = 3 then 2 else 12)"
    by blast
  then show ?thesis using ex_full_seated h2 m by auto
qed

section \<open>Bidding: everybody passes\<close>

text \<open>
  C6. From the state \<open>start_bidding\<close> leaves, with all seats filled, when every seat passes in
  turn (clockwise from the dealer's left), every pass is accepted and bidding ends with the
  forced bid of 150 appended for the dealer: \<open>current_bid\<close> is that bid, the dealer is the
  trumper and the phase is \<open>TRUMP_SELECTION\<close>.
\<close>

theorem all_pass_forces_dealer:
  assumes seated: "all_seated s0"
    and dealer: "dealer_seat s0 \<in> set (map seat (players s0))"
    and start: "start_bidding s0 = Inr s"
  shows "\<exists>rs s'. pass_all (clockwise_from s) s = Inr (rs, s') \<and> list_all is_Ok rs
           \<and> phase s' = TRUMP_SELECTION
           \<and> bids s' = map (\<lambda>x. Bid x None) (clockwise_from s) @ [Bid (dealer_seat s) (Some 150)]
           \<and> current_bid s' = Some (Bid (dealer_seat s) (Some 150))
           \<and> trumper_seat s' = Some (dealer_seat s)"
proof -
  note defs = start_bidding_def next_seat_def clockwise_from_def upt_small handle_bid_def
    validate_bid_def place_bid_def advance_bidding_def player_has_bid_def conclude_bidding_def
    Let_def MIN_BID_def mod_Suc
  from seated show ?thesis
  proof (cases rule: seated_cases)
    case (two p0 p1)
    from dealer two consider "dealer_seat s0 = 0" | "dealer_seat s0 = 1" by auto
    then show ?thesis
      by cases (use two start in \<open>auto simp add: defs\<close>)
  next
    case (three p0 p1 p2)
    from dealer three consider "dealer_seat s0 = 0" | "dealer_seat s0 = 1" | "dealer_seat s0 = 2"
      by auto
    then show ?thesis
      by cases (use three start in \<open>auto simp add: defs\<close>)
  next
    case (four p0 p1 p2 p3)
    from dealer four consider "dealer_seat s0 = 0" | "dealer_seat s0 = 1" | "dealer_seat s0 = 2"
      | "dealer_seat s0 = 3"
      by auto
    then show ?thesis
      by cases (use four start in \<open>auto simp add: defs\<close>)
  qed
qed

theorem all_pass_forces_dealer_witness:
  "all_seated ex_full \<and> dealer_seat ex_full \<in> set (map seat (players ex_full))
   \<and> (\<exists>s. start_bidding ex_full = Inr s
        \<and> (\<exists>rs s'. pass_all [1, 2, 3, 0] s = Inr (rs, s') \<and> list_all is_Ok rs
              \<and> phase s' = TRUMP_SELECTION
              \<and> current_bid s' = Some (Bid 0 (Some 150)) \<and> trumper_seat s' = Some 0))"
proof -
  have h2: "dealer_seat ex_full \<in> set (map seat (players ex_full))"
    by (simp add: ex_full_def ex_lobby_def)
  obtain s where s: "start_bidding ex_full = Inr s" "dealer_seat s = 0" "mode s = 4"
    by (simp add: start_bidding_def next_seat_def ex_full_def ex_lobby_def)
  then have cw: "clockwise_from s = [1, 2, 3, 0]"
    by (simp add: clockwise_from_def upt_small)
  from all_pass_forces_dealer[OF ex_full_seated h2 s(1)] s cw ex_full_seated h2
  show ?thesis by auto
qed

section \<open>Errors leave the game unchanged\<close>

lemma reveal_trump_error:
  "reveal_trump s r = Inr (Some err, s') \<Longrightarrow> s' = s"
  by (auto simp: reveal_trump_def Let_def split: if_splits option.splits)

lemma handle_bid_error: "handle_bid s x amt = Inr (Err e, s') \<Longrightarrow> s' = s"
  by (auto simp: handle_bid_def split: option.splits sum.splits)

lemma handle_trump_selection_error:
  "handle_trump_selection s x suit_str cid = Inr (Err e, s') \<Longrightarrow> s' = s"
  by (auto simp: handle_trump_selection_def split: option.splits sum.splits if_splits)

lemma handle_card_exchange_error:
  "handle_card_exchange s x cids = Inr (Err e, s') \<Longrightarrow> s' = s"
  by (auto simp: handle_card_exchange_def split: option.splits sum.splits if_splits)

lemma handle_skip_exchange_error: "handle_skip_exchange s x = Inr (Err e, s') \<Longrightarrow> s' = s"
  by (auto simp: handle_skip_exchange_def skip_exchange_def
      split: option.splits sum.splits if_splits reply.splits)

lemma handle_play_card_error: "handle_play_card s x cid = Inr (Err e, s') \<Longrightarrow> s' = s"
  by (auto simp: handle_play_card_def Let_def split: option.splits sum.splits if_splits)

lemma handle_ask_trump_error: "handle_ask_trump s x = Inr (Err e, s') \<Longrightarrow> s' = s"
  by (auto simp: handle_ask_trump_def split: if_splits)

lemma ask_trump_reveal_error: "ask_trump_reveal s x = Inr (Err e, s') \<Longrightarrow> s' = s"
  by (auto simp: ask_trump_reveal_def Let_def dest: reveal_trump_error
      split: option.splits sum.splits if_splits)

lemma handle_reveal_trump_error: "handle_reveal_trump s x = Inr (Err e, s') \<Longrightarrow> s' = s"
  by (auto simp: handle_reveal_trump_def Let_def dest: reveal_trump_error
      split: option.splits sum.splits if_splits)

text \<open>
  C5. Whenever one of the action handlers (bid or pass, select trump, exchange cards, skip
  exchange, play card, ask trump, reveal trump) returns an error, the game it returns is the
  game it was given. For ask trump this holds of the handler as written, which returns one of
  its first three errors or raises, and of the rest of its body.
\<close>

theorem error_leaves_game_unchanged:
  "(handle_bid s x amt = Inr (Err e, s') \<longrightarrow> s' = s)
   \<and> (handle_trump_selection s x suit_str cid = Inr (Err e, s') \<longrightarrow> s' = s)
   \<and> (handle_card_exchange s x cids = Inr (Err e, s') \<longrightarrow> s' = s)
   \<and> (handle_skip_exchange s x = Inr (Err e, s') \<longrightarrow> s' = s)
   \<and> (handle_play_card s x cid = Inr (Err e, s') \<longrightarrow> s' = s)
   \<and> (handle_ask_trump s x = Inr (Err e, s') \<longrightarrow> s' = s)
   \<and> (ask_trump_reveal s x = Inr (Err e, s') \<longrightarrow> s' = s)
   \<and> (handle_reveal_trump s x = Inr (Err e, s') \<longrightarrow> s' = s)"
  by (intro conjI impI)
    (erule handle_bid_error handle_trump_selection_error handle_card_exchange_error
      handle_skip_exchange_error handle_play_card_error handle_ask_trump_error
      ask_trump_reveal_error handle_reveal_trump_error)+

lemma from_id_ex: "from_id ''J_hearts'' = Inr (Card HEARTS JACK)"
  "from_id ''7_spades'' = Inr (Card SPADES SEVEN)"
  by (simp_all add: from_id_def rsplit1_def Suit_of_def Rank_of_def)

lemma ex_errors:
  "\<exists>s'. handle_bid ex_playing 0 None = Inr (Err NotInBiddingPhase, s')"
  "\<exists>s'. handle_trump_selection ex_playing 0 ''hearts'' ''J_hearts''
     = Inr (Err NotInTrumpSelectionPhase, s')"
  "\<exists>s'. handle_card_exchange ex_playing 0 [] = Inr (Err NotInCardExchangePhase, s')"
  "\<exists>s'. handle_skip_exchange ex_playing 0 = Inr (Err NotInCardExchangePhase, s')"
  "\<exists>s'. handle_play_card ex_playing 3 ''7_spades'' = Inr (Err NotYourTurn, s')"
  "\<exists>s'. handle_ask_trump ex_playing 0 = Inr (Err UseRevealInstead, s')"
  "\<exists>s'. ask_trump_reveal ex_playing 3 = Inr (Err HaveCallingSuit, s')"
  "\<exists>s'. handle_reveal_trump ex_playing 2 = Inr (Err OnlyTrumperCanReveal, s')"
         apply (simp add: handle_bid_def validate_bid_def ex_playing_def)
        apply (simp add: handle_trump_selection_def from_id_ex Suit_of_def
      validate_trump_selection_def ex_playing_def)
       apply (simp add: handle_card_exchange_def validate_card_exchange_def ex_playing_def)
      apply (simp add: handle_skip_exchange_def skip_exchange_def ex_playing_def)
     apply (simp add: handle_play_card_def from_id_ex validate_play_def Let_def ex_playing_def)
    apply (simp add: handle_ask_trump_def ex_playing_def)
   apply (simp add: ask_trump_reveal_def get_calling_suit_def get_player_by_seat_def
      ex_playing_def ex_player_def)
  apply (simp add: handle_reveal_trump_def ex_playing_def)
  done

theorem error_leaves_game_unchanged_witness:
  "handle_bid ex_playing 0 None = Inr (Err NotInBiddingPhase, ex_playing)
   \<and> handle_trump_selection ex_playing 0 ''hearts'' ''J_hearts''
       = Inr (Err NotInTrumpSelectionPhase, ex_playing)
   \<and> handle_card_exchange ex_playing 0 [] = Inr (Err NotInCardExchangePhase, ex_playing)
   \<and> handle_skip_exchange ex_playing 0 = Inr (Err NotInCardExchangePhase, ex_playing)
   \<and> handle_play_card ex_playing 3 ''7_spades'' = Inr (Err NotYourTurn, ex_playing)
   \<and> handle_ask_trump ex_playing 0 = Inr (Err UseRevealInstead, ex_playing)
   \<and> ask_trump_reveal ex_playing 3 = Inr (Err HaveCallingSuit, ex_playing)
   \<and> handle_reveal_trump ex_playing 2 = Inr (Err OnlyTrumperCanReveal, ex_playing)"
proof -
  from ex_errors(1) error_leaves_game_unchanged[where s = ex_playing and x = 0 and amt = None]
  have 1: "handle_bid ex_playing 0 None = Inr (Err NotInBiddingPhase, ex_playing)"
    by blast
  from ex_errors(2)
    error_leaves_game_unchanged[where s = ex_playing and x = 0 and suit_str = "''hearts''"
      and cid = "''J_hearts''"]
  have 2: "handle_trump_selection ex_playing 0 ''hearts'' ''J_hearts''
       = Inr (Err NotInTrumpSelectionPhase, ex_playing)"
    by blast
  from ex_errors(3) error_leaves_game_unchanged[where s = ex_playing and x = 0 and cids = "[]"]
  have 3: "handle_card_exchange ex_playing 0 [] = Inr (Err NotInCardExchangePhase, ex_playing)"
    by blast
  from ex_errors(4) error_leaves_game_unchanged[where s = ex_playing and x = 0]
  have 4: "handle_skip_exchange ex_playing 0 = Inr (Err NotInCardExchangePhase, ex_playing)"
    by blast
  from ex_errors(5)
    error_leaves_game_unchanged[where s = ex_playing and x = 3 and cid = "''7_spades''"]
  have 5: "handle_play_card ex_playing 3 ''7_spades'' = Inr (Err NotYourTurn, ex_playing)"
    by blast
  from ex_errors(6) error_leaves_game_unchanged[where s = ex_playing and x = 0]
  have 6: "handle_ask_trump ex_playing 0 = Inr (Err UseRevealInstead, ex_playing)"
    by blast
  from ex_errors(7) error_leaves_game_unchanged[where s = ex_playing and x = 3]
  have 7: "ask_trump_reveal ex_playing 3 = Inr (Err HaveCallingSuit, ex_playing)"
    by blast
  from ex_errors(8) error_leaves_game_unchanged[where s = ex_playing and x = 2]
  have 8: "handle_reveal_trump ex_playing 2 = Inr (Err OnlyTrumperCanReveal, ex_playing)"
    by blast
  from 1 2 3 4 5 6 7 8 show ?thesis by blast
qed

section \<open>The next game\<close>

lemma update_player_fields [simp]:
  "map seat (update_player x (\<lambda>p. p\<lparr>hand := f (hand p)\<rparr>) ps) = map seat ps"
  "map player_id (update_player x (\<lambda>p. p\<lparr>hand := f (hand p)\<rparr>) ps) = map player_id ps"
  "map name (update_player x (\<lambda>p. p\<lparr>hand := f (hand p)\<rparr>) ps) = map name ps"
  "map connection_id (update_player x (\<lambda>p. p\<lparr>hand := f (hand p)\<rparr>) ps) = map connection_id ps"
  by (induction ps) auto

lemma set_hand_frame: "set_hand s x f = s\<lparr>players := players (set_hand s x f)\<rparr>"
  by (simp add: set_hand_def)

lemma set_hand_players [simp]:
  "map seat (players (set_hand s x f)) = map seat (players s)"
  "map player_id (players (set_hand s x f)) = map player_id (players s)"
  "map name (players (set_hand s x f)) = map name (players s)"
  "map connection_id (players (set_hand s x f)) = map connection_id (players s)"
  by (simp_all add: set_hand_def)

lemma same_people_refl [simp]: "same_people s s"
  by (simp add: same_people_def)

lemma same_people_trans: "same_people s s1 \<Longrightarrow> same_people s1 s2 \<Longrightarrow> same_people s s2"
  by (simp add: same_people_def)

lemma same_people_set_hand [simp]: "same_people s (set_hand s x f)"
  by (simp add: same_people_def)

lemma deal_round_frame:
  "deal_round b xs d i s = Inr (s', j) \<Longrightarrow>
     \<exists>ps. s' = s\<lparr>players := ps\<rparr> \<and> same_people s s'"
proof (induction xs arbitrary: s i)
  case Nil
  then show ?case by (auto intro: exI[of _ "players s"])
next
  case (Cons x xs)
  let ?s1 = "set_hand s x (\<lambda>h. h @ take b (drop i d))"
  from Cons.prems have r: "deal_round b xs d (i + b) ?s1 = Inr (s', j)"
    by (auto split: option.splits)
  from Cons.IH[OF r] obtain ps where ps: "s' = ?s1\<lparr>players := ps\<rparr>" "same_people ?s1 s'"
    by blast
  from ps(1) have "s' = s\<lparr>players := ps\<rparr>" by (simp add: set_hand_def)
  moreover have "same_people s s'"
    using same_people_set_hand ps(2) by (rule same_people_trans)
  ultimately show ?case by blast
qed

lemma deal_rounds_frame:
  "deal_rounds bs xs d i s = Inr (s', j) \<Longrightarrow>
     \<exists>ps. s' = s\<lparr>players := ps\<rparr> \<and> same_people s s'"
proof (induction bs arbitrary: s i)
  case Nil
  then show ?case by (auto intro: exI[of _ "players s"])
next
  case (Cons b bs)
  from Cons.prems obtain s1 i1 where
    r1: "deal_round b xs d i s = Inr (s1, i1)" and r2: "deal_rounds bs xs d i1 s1 = Inr (s', j)"
    by (auto split: sum.splits)
  from deal_round_frame[OF r1] obtain ps1 where p1: "s1 = s\<lparr>players := ps1\<rparr>" "same_people s s1"
    by blast
  from Cons.IH[OF r2] obtain ps where p2: "s' = s1\<lparr>players := ps\<rparr>" "same_people s1 s'"
    by blast
  from p1(1) p2(1) have "s' = s\<lparr>players := ps\<rparr>" by simp
  moreover have "same_people s s'" using p1(2) p2(2) by (rule same_people_trans)
  ultimately show ?case by blast
qed


lemma same_people_clear:
  "same_people s (s\<lparr>players := map (\<lambda>p. p\<lparr>hand := []\<rparr>) (players s), center_pile := []\<rparr>)"
  by (simp add: same_people_def comp_def)

lemma deal_frame:
  assumes "deal s d = Inr s'"
  shows "\<exists>ps cp. s' = s\<lparr>players := ps, center_pile := cp, deck := []\<rparr> \<and> same_people s s'"
proof -
  let ?s0 = "s\<lparr>players := map (\<lambda>p. p\<lparr>hand := []\<rparr>) (players s), center_pile := []\<rparr>"
  have sp0: "same_people s ?s0" by (rule same_people_clear)
  from assms obtain idx where idx: "index_of (sort (map seat (players s))) (dealer_seat s) = Some idx"
    by (auto simp: deal_def Let_def split: option.splits)
  let ?ord = "map (\<lambda>i. sort (map seat (players s)) ! ((idx + 1 + i) mod length (players s)))
                 [0 ..< length (players s)]"
  consider (a) s1 j where "mode s = 2 \<or> mode s = 3" "deal_rounds [4, 4, 2] ?ord d 0 ?s0 = Inr (s1, j)"
      "s' = s1\<lparr>center_pile := drop j d, deck := []\<rparr>"
    | (b) s1 j where "mode s = 4" "deal_rounds [4, 4] ?ord d 0 ?s0 = Inr (s1, j)"
      "s' = s1\<lparr>deck := []\<rparr>"
    | (c) "s' = ?s0\<lparr>deck := []\<rparr>"
    using assms idx by (auto simp: deal_def Let_def split: if_splits sum.splits)
  then show ?thesis
  proof cases
    case a
    from deal_rounds_frame[OF a(2)] obtain ps where
      ps: "s1 = ?s0\<lparr>players := ps\<rparr>" "same_people ?s0 s1" by blast
    from a(3) ps(1) have "s' = s\<lparr>players := ps, center_pile := drop j d, deck := []\<rparr>" by simp
    moreover have "same_people s s'"
      using same_people_trans[OF sp0 ps(2)] a(3) by (simp add: same_people_def)
    ultimately show ?thesis by blast
  next
    case b
    from deal_rounds_frame[OF b(2)] obtain ps where
      ps: "s1 = ?s0\<lparr>players := ps\<rparr>" "same_people ?s0 s1" by blast
    from b(3) ps(1) have "s' = s\<lparr>players := ps, center_pile := [], deck := []\<rparr>" by simp
    moreover have "same_people s s'"
      using same_people_trans[OF sp0 ps(2)] b(3) by (simp add: same_people_def)
    ultimately show ?thesis by blast
  next
    case c
    then have "s' = s\<lparr>players := map (\<lambda>p. p\<lparr>hand := []\<rparr>) (players s), center_pile := [], deck := []\<rparr>"
      by simp
    moreover have "same_people s s'" using sp0 c by (simp add: same_people_def)
    ultimately show ?thesis by blast
  qed
qed

lemma next_seat_same_people:
  "same_people s s' \<Longrightarrow> next_seat s' x = next_seat s x"
  by (simp add: next_seat_def same_people_def)

text \<open>
  C10. A successful \<open>next_game\<close> starts from phase \<open>SCORING\<close> and keeps the game code, the
  mode, every player's id, name and seat, every cumulative score and \<open>games_played\<close>. Before
  it deals again it has reset the bids, the current bid, the bidding turn, the trumper, the
  trump suit and card, the reveal and exchange flags, the current trick, the piles of tricks
  won, the turn, its deadline, the trick number, the lead seat and the center pile; the deal
  and the start of bidding that follow only set the hands, the center pile, the deck and the
  bidding turn.
\<close>

theorem next_game_frame:
  assumes "next_game s d = Inr (None, s')"
  shows "phase s = SCORING
    \<and> game_code s' = game_code s \<and> mode s' = mode s
    \<and> map player_id (players s') = map player_id (players s)
    \<and> map name (players s') = map name (players s)
    \<and> map seat (players s') = map seat (players s)
    \<and> scores s' = scores s \<and> games_played s' = games_played s
    \<and> (\<exists>n r s1. next_seat s (dealer_seat s) = Inr n \<and> dealer_seat s' = n \<and> r = next_game_reset (s\<lparr>dealer_seat := n\<rparr>)
          \<and> bids r = [] \<and> current_bid r = None \<and> bid_turn_seat r = None
          \<and> trumper_seat r = None \<and> trump_suit r = None \<and> trump_card r = None
          \<and> \<not> trump_revealed r \<and> \<not> exchange_done r \<and> current_trick r = []
          \<and> tricks_won r = [] \<and> turn_seat r = None \<and> turn_deadline r = None
          \<and> trick_number r = 0 \<and> lead_seat r = None \<and> center_pile r = []
          \<and> deal r d = Inr s1 \<and> start_bidding s1 = Inr s')
    \<and> bids s' = [] \<and> current_bid s' = None \<and> trumper_seat s' = None \<and> trump_suit s' = None
    \<and> trump_card s' = None \<and> \<not> trump_revealed s' \<and> \<not> exchange_done s'
    \<and> current_trick s' = [] \<and> tricks_won s' = [] \<and> turn_seat s' = None
    \<and> turn_deadline s' = None \<and> trick_number s' = 0 \<and> lead_seat s' = None
    \<and> phase s' = BIDDING"
proof -
  from assms have ph: "phase s = SCORING"
    by (auto simp: next_game_def split: if_splits)
  from assms ph obtain n s1 where
    n: "next_seat s (dealer_seat s) = Inr n"
    and d: "deal (next_game_reset (s\<lparr>dealer_seat := n\<rparr>)) d = Inr s1"
    and b: "start_bidding s1 = Inr s'"
    by (auto simp: next_game_def split: sum.splits)
  let ?r = "next_game_reset (s\<lparr>dealer_seat := n\<rparr>)"
  from deal_frame[OF d] obtain ps cp where
    s1: "s1 = ?r\<lparr>players := ps, center_pile := cp, deck := []\<rparr>" and sp: "same_people ?r s1"
    by blast
  from b obtain m where
    s': "s' = s1\<lparr>phase := BIDDING, bids := [], current_bid := None, bid_turn_seat := Some m\<rparr>"
    by (auto simp: start_bidding_def split: sum.splits)
  have r_fields: "bids ?r = [] \<and> current_bid ?r = None \<and> bid_turn_seat ?r = None
          \<and> trumper_seat ?r = None \<and> trump_suit ?r = None \<and> trump_card ?r = None
          \<and> \<not> trump_revealed ?r \<and> \<not> exchange_done ?r \<and> current_trick ?r = []
          \<and> tricks_won ?r = [] \<and> turn_seat ?r = None \<and> turn_deadline ?r = None
          \<and> trick_number ?r = 0 \<and> lead_seat ?r = None \<and> center_pile ?r = []"
    by (simp add: next_game_reset_def)
  have people: "map player_id (players s') = map player_id (players s)
    \<and> map name (players s') = map name (players s)
    \<and> map seat (players s') = map seat (players s)"
    using sp s' by (simp add: same_people_def next_game_reset_def)
  have kept: "game_code s' = game_code s \<and> mode s' = mode s \<and> scores s' = scores s
      \<and> games_played s' = games_played s"
    using s1 s' by (simp add: next_game_reset_def)
  have after: "bids s' = [] \<and> current_bid s' = None \<and> trumper_seat s' = None \<and> trump_suit s' = None
    \<and> trump_card s' = None \<and> \<not> trump_revealed s' \<and> \<not> exchange_done s'
    \<and> current_trick s' = [] \<and> tricks_won s' = [] \<and> turn_seat s' = None
    \<and> turn_deadline s' = None \<and> trick_number s' = 0 \<and> lead_seat s' = None
    \<and> phase s' = BIDDING"
    using s1 s' by (simp add: next_game_reset_def)
  have dl: "dealer_seat s' = n"
    using s1 s' by (simp add: next_game_reset_def)
  from ph people kept after r_fields n dl d b show ?thesis by blast
qed


lemma ex_scoring_next:
  "\<exists>s'. next_game ex_scoring create_deck = Inr (None, s')"
  by (simp add: next_game_def next_seat_def ex_scoring_def ex_playing_def ex_player_def
      next_game_reset_def deal_def Let_def upt_small get_player_by_seat_def set_hand_def
      start_bidding_def mod_Suc)

theorem next_game_frame_witness:
  "\<exists>s'. next_game ex_scoring create_deck = Inr (None, s')
      \<and> phase ex_scoring = SCORING \<and> scores s' = scores ex_scoring
      \<and> games_played s' = games_played ex_scoring \<and> game_code s' = game_code ex_scoring
      \<and> trump_card s' = None \<and> tricks_won s' = [] \<and> phase s' = BIDDING"
proof -
  from ex_scoring_next obtain s' where s': "next_game ex_scoring create_deck = Inr (None, s')"
    by blast
  from next_game_frame[OF s'] s' show ?thesis by blast
qed

section \<open>Card identifiers and event keys\<close>

lemma from_id_card_id: "from_id (card_id c) = Inr c"
proof (cases c)
  case (Card s r)
  then show ?thesis
    by (cases s; cases r)
      (simp_all add: from_id_def card_id_def rsplit1_def Suit_of_def Rank_of_def)
qed

lemma dict_update_other:
  "k \<notin> fst ` set other \<Longrightarrow> map_of (dict_update d other) k = map_of d k"
  unfolding dict_update_def
  by (induction other arbitrary: d) (auto simp: update_conv)

lemma resolve_game_over_is_cut:
  "resolve_game_over s w result = Inr (ev, s') \<Longrightarrow>
     map_of ev ''is_cut'' = map_of result ''is_cut''"
  by (auto simp: resolve_game_over_def Let_def update_conv
      split: if_splits sum.splits list.splits option.splits bool.splits prod.splits)

lemma resolve_trick_keys:
  "resolve_trick s = Inr (ev, s') \<Longrightarrow> ''is_cut'' \<notin> fst ` set ev"
  by (auto simp: resolve_trick_def Let_def update_conv map_of_eq_None_iff[symmetric]
      split: if_splits sum.splits list.splits prod.splits dest!: resolve_game_over_is_cut)

lemma play_card_is_cut:
  assumes "play_card s x c = Inr (ev, s')"
  shows "dict_get ev ''is_cut''
           = PBool (get_calling_suit s \<noteq> None \<and> Some (suit c) \<noteq> get_calling_suit s
                    \<and> trump_revealed s \<and> Some (suit c) = trump_suit s)"
  using assms
  by (auto simp: play_card_def Let_def dict_get_def dict_update_other update_conv
      set_hand_def get_calling_suit_def
      split: option.splits if_splits sum.splits prod.splits dest!: resolve_trick_keys)

section \<open>Card conservation\<close>

lemma hands_update_player:
  "find (\<lambda>p. seat p = x) ps = Some p \<Longrightarrow>
     mset (concat (map hand (update_player x (\<lambda>p. p\<lparr>hand := f (hand p)\<rparr>) ps))) + mset (hand p)
       = mset (concat (map hand ps)) + mset (f (hand p))"
  by (induction ps) (auto split: if_splits)

lemma length_update_player [simp]: "length (update_player x f ps) = length ps"
  by (induction ps) auto

lemma update_player_seats [simp]:
  assumes "\<And>p. seat (f p) = seat p"
  shows "map seat (update_player x f ps) = map seat ps"
    and "seat ` set (update_player x f ps) = seat ` set ps"
proof -
  show m: "map seat (update_player x f ps) = map seat ps"
    using assms by (induction ps) auto
  from arg_cong[OF m, of set] show "seat ` set (update_player x f ps) = seat ` set ps"
    by simp
qed

lemma hands_set_hand:
  "get_player_by_seat s x = Some p \<Longrightarrow>
     mset (concat (map hand (players (set_hand s x f)))) + mset (hand p)
       = mset (concat (map hand (players s))) + mset (f (hand p))"
  unfolding get_player_by_seat_def set_hand_def by (simp add: hands_update_player)

lemma hands_append:
  "get_player_by_seat s x = Some p \<Longrightarrow>
     mset (concat (map hand (players (set_hand s x (\<lambda>h. h @ cs)))))
       = mset (concat (map hand (players s))) + mset cs"
  using hands_set_hand[of s x p "\<lambda>h. h @ cs"] by simp

lemma hands_update_remove1:
  "find (\<lambda>p. seat p = x) ps = Some p \<Longrightarrow> c \<in> set (hand p) \<Longrightarrow>
     add_mset c (mset (concat (map hand (update_player x (\<lambda>p. p\<lparr>hand := remove1 c (hand p)\<rparr>) ps))))
       = mset (concat (map hand ps))"
  by (induction ps) (auto split: if_splits)

lemma hands_remove1:
  "get_player_by_seat s x = Some p \<Longrightarrow> c \<in> set (hand p) \<Longrightarrow>
     add_mset c (mset (concat (map hand (players (set_hand s x (remove1 c))))))
       = mset (concat (map hand (players s)))"
  unfolding get_player_by_seat_def set_hand_def by (simp add: hands_update_remove1)

lemma moved_refl: "moved s s"
  unfolding moved_def
  by (rule exI[of _ "players s"], rule exI[of _ "center_pile s"], rule exI[of _ "tricks_won s"],
      rule exI[of _ "current_trick s"], rule exI[of _ "turn_seat s"], rule exI[of _ "lead_seat s"],
      rule exI[of _ "trick_number s"], rule exI[of _ "trump_revealed s"]) simp

lemma moved_trans:
  assumes "moved s s1" and "moved s1 s2"
  shows "moved s s2"
proof -
  from assms(1) obtain ps cp tw ct ts ls tn tr where
    a: "s1 = s\<lparr>players := ps, center_pile := cp, tricks_won := tw, current_trick := ct,
               turn_seat := ts, lead_seat := ls, trick_number := tn, trump_revealed := tr\<rparr>"
    "map seat ps = map seat (players s)" "trump_revealed s \<longrightarrow> tr"
    "distinct (map fst (tricks_won s)) \<longrightarrow> distinct (map fst tw)"
    "trick_seated s \<longrightarrow> trick_seated s1"
    "set (played_cards s) \<subseteq> set (played_cards s1)"
    "mset (all_cards s1) = mset (all_cards s)"
    unfolding moved_def by blast
  from assms(2) obtain ps' cp' tw' ct' ts' ls' tn' tr' where
    b: "s2 = s1\<lparr>players := ps', center_pile := cp', tricks_won := tw', current_trick := ct',
               turn_seat := ts', lead_seat := ls', trick_number := tn', trump_revealed := tr'\<rparr>"
    "map seat ps' = map seat (players s1)" "trump_revealed s1 \<longrightarrow> tr'"
    "distinct (map fst (tricks_won s1)) \<longrightarrow> distinct (map fst tw')"
    "trick_seated s1 \<longrightarrow> trick_seated s2"
    "set (played_cards s1) \<subseteq> set (played_cards s2)"
    "mset (all_cards s2) = mset (all_cards s1)"
    unfolding moved_def by blast
  have e: "s2 = s\<lparr>players := ps', center_pile := cp', tricks_won := tw', current_trick := ct',
               turn_seat := ts', lead_seat := ls', trick_number := tn', trump_revealed := tr'\<rparr>"
    using a(1) b(1) by simp
  have "map seat ps' = map seat (players s)" using a(1,2) b(2) by simp
  moreover have "trump_revealed s \<longrightarrow> tr'" using a(1,3) b(3) by simp
  moreover have "distinct (map fst (tricks_won s)) \<longrightarrow> distinct (map fst tw')"
    using a(1,4) b(4) by simp
  moreover have "trick_seated s \<longrightarrow> trick_seated s2" using a(5) b(5) by simp
  moreover have "set (played_cards s) \<subseteq> set (played_cards s2)" using a(6) b(6) by simp
  moreover have "mset (all_cards s2) = mset (all_cards s)" using a(7) b(7) by simp
  ultimately show ?thesis unfolding moved_def using e by blast
qed

text \<open>How a game that differs in the moving fields is shown to have moved.\<close>

lemma movedI:
  assumes "s' = s\<lparr>players := ps, center_pile := cp, tricks_won := tw, current_trick := ct,
               turn_seat := ts, lead_seat := ls, trick_number := tn, trump_revealed := tr\<rparr>"
    and "map seat ps = map seat (players s)"
    and "trump_revealed s \<longrightarrow> tr"
    and "distinct (map fst (tricks_won s)) \<longrightarrow> distinct (map fst tw)"
    and "trick_seated s \<longrightarrow> trick_seated s'"
    and "set (played_cards s) \<subseteq> set (played_cards s')"
    and "mset (all_cards s') = mset (all_cards s)"
  shows "moved s s'"
  unfolding moved_def using assms by blast

lemma moved_set_hand_append:
  assumes "get_player_by_seat s x = Some p" and "center_pile s = c # rest"
  shows "moved s (set_hand (s\<lparr>center_pile := rest\<rparr>) x (\<lambda>h. h @ [c]))"
proof (rule movedI[where ps = "players (set_hand (s\<lparr>center_pile := rest\<rparr>) x (\<lambda>h. h @ [c]))"
      and cp = rest and tw = "tricks_won s" and ct = "current_trick s" and ts = "turn_seat s"
      and ls = "lead_seat s" and tn = "trick_number s" and tr = "trump_revealed s"])
  have g: "get_player_by_seat (s\<lparr>center_pile := rest\<rparr>) x = Some p"
    using assms(1) by (simp add: get_player_by_seat_def)
  show "mset (all_cards (set_hand (s\<lparr>center_pile := rest\<rparr>) x (\<lambda>h. h @ [c]))) = mset (all_cards s)"
    using hands_append[OF g, of "[c]"] assms(2)
    by (simp add: all_cards_def set_hand_def)
qed (simp_all add: set_hand_def trick_seated_def played_cards_def)

lemma draw_loop_moved:
  "draw_loop xs s draws = Inr (ds, s') \<Longrightarrow> moved s s'"
proof (induction xs arbitrary: s draws)
  case Nil
  then show ?case by (simp add: moved_refl)
next
  case (Cons x xs)
  show ?case
  proof (cases "center_pile s")
    case Nil
    with Cons.prems show ?thesis by (simp add: moved_refl)
  next
    case (Cons c rest)
    with Cons.prems obtain p where p: "get_player_by_seat s x = Some p"
      and r: "draw_loop xs (set_hand (s\<lparr>center_pile := rest\<rparr>) x (\<lambda>h. h @ [c]))
                (draws @ [PDict [(PStr ''seat'', PInt x), (PStr ''card'', PStr (card_id c))]])
              = Inr (ds, s')"
      by (auto split: option.splits)
    from moved_set_hand_append[OF p Cons] Cons.IH[OF r] show ?thesis by (rule moved_trans)
  qed
qed


lemma movedI':
  assumes "s' = s\<lparr>players := players s', center_pile := center_pile s',
               tricks_won := tricks_won s', current_trick := current_trick s',
               turn_seat := turn_seat s', lead_seat := lead_seat s',
               trick_number := trick_number s', trump_revealed := trump_revealed s'\<rparr>"
    and "map seat (players s') = map seat (players s)"
    and "trump_revealed s \<longrightarrow> trump_revealed s'"
    and "distinct (map fst (tricks_won s)) \<longrightarrow> distinct (map fst (tricks_won s'))"
    and "trick_seated s \<longrightarrow> trick_seated s'"
    and "set (played_cards s) \<subseteq> set (played_cards s')"
    and "mset (all_cards s') = mset (all_cards s)"
  shows "moved s s'"
  using assms by (rule movedI)

lemma piles_update:
  "mset (concat (map snd (AList.update w ((case map_of tw w of None \<Rightarrow> [] | Some p \<Rightarrow> p) @ cs) tw)))
     = mset (concat (map snd tw)) + mset cs"
  by (induction tw) auto

lemma piles_update_set:
  "set (concat (map snd (AList.update w ((case map_of tw w of None \<Rightarrow> [] | Some p \<Rightarrow> p) @ cs) tw)))
     = set (concat (map snd tw)) \<union> set cs"
  using arg_cong[OF piles_update[of w tw cs], of set_mset] by simp

lemma player_seat_mem:
  "get_player_by_seat s x = Some p \<Longrightarrow> x \<in> set (map seat (players s))"
  unfolding get_player_by_seat_def by (auto simp: find_Some_iff)

lemma reveal_trump_moved:
  assumes "reveal_trump s r = Inr (res, s')"
  shows "moved s s'"
proof (cases "trump_revealed s \<or> trump_suit s = None")
  case True
  with assms have "s' = s" by (auto simp: reveal_trump_def split: if_splits)
  then show ?thesis by (simp add: moved_refl)
next
  case False
  show ?thesis
  proof (cases "trump_card s")
    case None
    with assms False have "s' = s\<lparr>trump_revealed := True\<rparr>"
      by (auto simp: reveal_trump_def Let_def)
    then show ?thesis using None
      by (intro movedI')
        (simp_all add: all_cards_def trump_slot_def trick_seated_def played_cards_def)
  next
    case (Some c)
    with assms False obtain t trumper where t: "trumper_seat s = Some t"
      and g: "get_player_by_seat (s\<lparr>trump_revealed := True\<rparr>) t = Some trumper"
      and s': "s' = set_hand (s\<lparr>trump_revealed := True\<rparr>) (seat trumper) (\<lambda>h. h @ [c])"
      by (auto simp: reveal_trump_def Let_def split: option.splits)
    from g have st: "seat trumper = t"
      by (auto simp: get_player_by_seat_def dest: find_Some_iff[THEN iffD1])
    from hands_append[OF g, of "[c]"] s' st Some False show ?thesis
      by (intro movedI')
        (simp_all add: all_cards_def trump_slot_def set_hand_def trick_seated_def
          played_cards_def)
  qed
qed

lemma resolve_game_over_moved:
  assumes "resolve_game_over s w result = Inr (ev, s')"
  shows "moved s s'"
proof -
  from assms obtain b where b: "two_seat_done s = Inr b"
    unfolding resolve_game_over_def by (cases "two_seat_done s") simp_all
  show ?thesis
  proof (cases b)
    case True
    with assms b have "s' = s" by (simp add: resolve_game_over_def)
    then show ?thesis by (simp add: moved_refl)
  next
    case False
    note nb = False
    show ?thesis
    proof (cases "trick_number s > 8 \<and> mode s \<noteq> 2")
      case True
      show ?thesis
      proof (cases "trump_revealed s")
        case True
        with assms b nb \<open>trick_number s > 8 \<and> mode s \<noteq> 2\<close> have "s' = s"
          by (simp add: resolve_game_over_def)
        then show ?thesis by (simp add: moved_refl)
      next
        case False
        with assms b nb True obtain res where "reveal_trump s (trumper_seat s) = Inr (res, s')"
          by (cases "reveal_trump s (trumper_seat s)")
            (auto simp add: resolve_game_over_def)
        then show ?thesis by (rule reveal_trump_moved)
      qed
    next
      case False
      with assms b nb
      have "s' = s \<or> s' = s\<lparr>turn_seat := Some w, lead_seat := Some w\<rparr>"
        by (auto simp add: resolve_game_over_def split: if_splits)
      then show ?thesis
      proof
        assume "s' = s"
        then show ?thesis by (simp add: moved_refl)
      next
        assume "s' = s\<lparr>turn_seat := Some w, lead_seat := Some w\<rparr>"
        then show ?thesis
          by (intro movedI') (simp_all add: all_cards_def trick_seated_def played_cards_def)
      qed
    qed
  qed
qed

lemma draw_cards_2p_moved:
  assumes "draw_cards_2p s w = Inr (ds, s')"
  shows "moved s s'"
proof -
  from assms obtain n where "draw_loop [w, n] s [] = Inr (ds, s')"
    unfolding draw_cards_2p_def by (cases "next_seat s w") simp_all
  then show ?thesis by (rule draw_loop_moved)
qed

lemma resolve_trick_moved:
  assumes "resolve_trick s = Inr (ev, s')"
  shows "moved s s'"
proof -
  from assms obtain first rest where tr: "current_trick s = first # rest"
    by (auto simp: resolve_trick_def split: list.splits)
  define w where "w = tc_seat (trick_winner s first rest)"
  define s1 where "s1 = s\<lparr>tricks_won := AList.update w
        ((case map_of (tricks_won s) w of None \<Rightarrow> [] | Some p \<Rightarrow> p) @ map tc_card (current_trick s))
        (tricks_won s), current_trick := [], trick_number := trick_number s + 1\<rparr>"
  have "set (played_cards s) \<subseteq> set (played_cards s1)"
    unfolding s1_def played_cards_def
    by (auto simp add: piles_update_set simp del: set_concat)
  then have m1: "moved s s1"
    unfolding s1_def
    by (intro movedI')
      (simp_all add: all_cards_def piles_update distinct_update trick_seated_def)
  from assms tr consider ds s2 result where "draw_cards_2p s1 w = Inr (ds, s2)"
      "resolve_game_over s2 w result = Inr (ev, s')"
    | result where "resolve_game_over s1 w result = Inr (ev, s')"
    unfolding resolve_trick_def Let_def s1_def w_def
    by (auto split: if_splits sum.splits prod.splits)
  then show ?thesis
  proof cases
    case 1
    from m1 draw_cards_2p_moved[OF 1(1)] resolve_game_over_moved[OF 1(2)] show ?thesis
      by (blast intro: moved_trans)
  next
    case 2
    from m1 resolve_game_over_moved[OF 2] show ?thesis by (rule moved_trans)
  qed
qed

lemma play_card_moved:
  assumes "play_card s x c = Inr (ev, s')"
  shows "moved s s'"
proof -
  from assms obtain p where p: "get_player_by_seat s x = Some p" and c: "c \<in> set (hand p)"
    by (auto simp: play_card_def split: option.splits if_splits)
  define s2 where "s2 = (set_hand s x (remove1 c))\<lparr>current_trick := current_trick s @ [TrickCard x c]\<rparr>"
  have m2: "moved s s2"
    unfolding s2_def using hands_remove1[OF p c] player_seat_mem[OF p]
    by (intro movedI')
      (auto simp add: all_cards_def set_hand_def trick_seated_def played_cards_def)
  from assms p c consider tr where "resolve_trick s2 = Inr (tr, s')"
    | n where "s' = s2\<lparr>turn_seat := Some n\<rparr>"
    unfolding play_card_def Let_def s2_def
    by (auto simp: set_hand_def split: if_splits sum.splits prod.splits)
  then show ?thesis
  proof cases
    case 1
    from m2 resolve_trick_moved[OF 1] show ?thesis by (rule moved_trans)
  next
    case 2
    have "moved s2 s'" unfolding 2
      by (intro movedI') (simp_all add: all_cards_def trick_seated_def played_cards_def)
    with m2 show ?thesis by (rule moved_trans)
  qed
qed

lemma auto_play_moved: "auto_play s x r1 r2 = Inr (ev, s') \<Longrightarrow> moved s s'"
  by (auto simp: auto_play_def moved_refl split: sum.splits if_splits dest: play_card_moved)

lemma distinct_award: "distinct (map fst sc) \<Longrightarrow> distinct (map fst (award team pts sc))"
  unfolding award_def
  by (induction team arbitrary: sc) (simp_all add: distinct_update)

lemma moved_inv:
  assumes "game_inv s" and "moved s s'" and "phase s \<noteq> WAITING"
  shows "game_inv s' \<and> phase s' = phase s"
proof -
  from assms(2) obtain ps cp tw ct ts ls tn tr where
    a: "s' = s\<lparr>players := ps, center_pile := cp, tricks_won := tw, current_trick := ct,
               turn_seat := ts, lead_seat := ls, trick_number := tn, trump_revealed := tr\<rparr>"
    "map seat ps = map seat (players s)" "trump_revealed s \<longrightarrow> tr"
    "distinct (map fst (tricks_won s)) \<longrightarrow> distinct (map fst tw)"
    "mset (all_cards s') = mset (all_cards s)"
    unfolding moved_def by blast
  from a(2) have len: "length ps = length (players s)" by (rule map_eq_imp_length_eq)
  have f: "ttl s' = ttl s" "deck s' = deck s" "scores s' = scores s" "mode s' = mode s"
    "phase s' = phase s" "trump_card s' = trump_card s" "trump_suit s' = trump_suit s"
    "tricks_won s' = tw" "players s' = ps" "trump_revealed s' = tr"
    unfolding a(1) by simp_all
  from assms(1,3) len a(3-5) show ?thesis
    unfolding game_inv_def f by auto
qed

lemma game_inv_scoring:
  assumes "game_inv s" and "phase s \<noteq> WAITING"
  shows "game_inv (s\<lparr>phase := SCORING\<rparr>)"
    and "game_inv (s\<lparr>phase := SCORING, scores := award team pts (scores s),
                     games_played := n\<rparr>)"
  using assms by (simp_all add: game_inv_def all_cards_def distinct_award)

lemma score_game_inv:
  assumes "game_inv s" and "phase s \<noteq> WAITING" and "score_game s = Inr (ev, s')"
  shows "game_inv s' \<and> phase s' = SCORING"
proof (cases "check_spoilt_trump (s\<lparr>phase := SCORING\<rparr>)")
  case True
  with assms(3) have "s' = s\<lparr>phase := SCORING\<rparr>"
    by (simp add: score_game_def Let_def)
  with game_inv_scoring(1)[OF assms(1,2)] show ?thesis by simp
next
  case False
  with assms(3) obtain b a where b: "current_bid s = Some b" "amount b = Some a"
    by (auto simp add: score_game_def Let_def split: option.splits)
  show ?thesis
  proof (cases "fst (calculate_team_points (s\<lparr>phase := SCORING\<rparr>)) \<ge> a")
    case True
    with assms(3) False b
    have "s' = s\<lparr>phase := SCORING,
                  scores := award (get_trumper_team_seats (s\<lparr>phase := SCORING\<rparr>))
                              (fst (get_scoring_points a)) (scores s),
                  games_played := games_played s + 1\<rparr>"
      by (simp add: score_game_def Let_def)
    with game_inv_scoring(2)[OF assms(1,2)] show ?thesis by simp
  next
    case nw: False
    with assms(3) False b
    have "s' = s\<lparr>phase := SCORING,
                  scores := award (get_opposing_team_seats (s\<lparr>phase := SCORING\<rparr>))
                              (snd (get_scoring_points a)) (scores s),
                  games_played := games_played s + 1\<rparr>"
      by (simp add: score_game_def Let_def)
    with game_inv_scoring(2)[OF assms(1,2)] show ?thesis by simp
  qed
qed

lemma validate_play_phase: "validate_play s x c w = Inr None \<Longrightarrow> phase s = PLAYING"
  by (auto simp: validate_play_def split: if_splits)

lemma handle_play_card_inv:
  assumes "game_inv s" and "handle_play_card s x cid = Inr (Ok ev, s')"
  shows "game_inv s'"
proof -
  from assms(2) obtain c w where v: "validate_play s x c w = Inr None"
    and r: "\<exists>result s1. play_card s x c = Inr (result, s1)
              \<and> (s' = s1 \<or> (\<exists>scoring. score_game s1 = Inr (scoring, s')))"
    unfolding handle_play_card_def Let_def
    by (auto split: sum.splits if_splits option.splits prod.splits)
  from v have ph: "phase s \<noteq> WAITING" by (auto dest: validate_play_phase)
  from r obtain result s1 where p: "play_card s x c = Inr (result, s1)"
    and q: "s' = s1 \<or> (\<exists>scoring. score_game s1 = Inr (scoring, s'))" by blast
  from moved_inv[OF assms(1) play_card_moved[OF p] ph] have i1: "game_inv s1" "phase s1 \<noteq> WAITING"
    using ph by auto
  from q show ?thesis using i1 score_game_inv by blast
qed

lemma handle_timeout_inv:
  assumes "game_inv s" and "handle_timeout s x r1 r2 = Inr (Ok ev, s')"
  shows "game_inv s'"
proof -
  from assms(2) have t: "turn_seat s = Some x"
    and r: "\<exists>result s1. auto_play s x r1 r2 = Inr (result, s1)
              \<and> (s' = s1 \<or> (\<exists>scoring. score_game s1 = Inr (scoring, s')))"
    unfolding handle_timeout_def
    by (auto split: sum.splits if_splits prod.splits)
  from t assms(1) have ph: "phase s \<noteq> WAITING" by (auto simp: game_inv_def)
  from r obtain result s1 where p: "auto_play s x r1 r2 = Inr (result, s1)"
    and q: "s' = s1 \<or> (\<exists>scoring. score_game s1 = Inr (scoring, s'))" by blast
  from moved_inv[OF assms(1) auto_play_moved[OF p] ph] have i1: "game_inv s1" "phase s1 \<noteq> WAITING"
    using ph by auto
  from q show ?thesis using i1 score_game_inv by blast
qed

lemma handle_ask_trump_never: "handle_ask_trump s x \<noteq> Inr (Ok ev, s')"
  by (simp add: handle_ask_trump_def)

lemma ask_trump_reveal_moved:
  "ask_trump_reveal s x = Inr (Ok ev, s') \<Longrightarrow> moved s s'"
  unfolding ask_trump_reveal_def
  by (auto split: sum.splits if_splits prod.splits option.splits dest: reveal_trump_moved)

lemma ask_trump_reveal_inv:
  assumes "game_inv s" and "phase s = PLAYING" and "ask_trump_reveal s x = Inr (Ok ev, s')"
  shows "game_inv s'"
  using moved_inv[OF assms(1) ask_trump_reveal_moved[OF assms(3)]] assms(2) by simp

lemma handle_reveal_trump_inv:
  assumes "game_inv s" and "handle_reveal_trump s x = Inr (Ok ev, s')"
  shows "game_inv s'"
proof -
  from assms(2) have ph: "phase s = PLAYING" and "\<exists>r res. reveal_trump s r = Inr (res, s')"
    unfolding handle_reveal_trump_def
    by (auto split: sum.splits if_splits prod.splits option.splits)
  then show ?thesis using moved_inv[OF assms(1)] reveal_trump_moved by fastforce
qed

lemma place_bid_frame:
  assumes "place_bid s x amt = Inr (ev, s')"
  shows "\<exists>bs cb bt ts ph. s' = s\<lparr>bids := bs, current_bid := cb, bid_turn_seat := bt,
                                   trumper_seat := ts, phase := ph\<rparr>
           \<and> (ph = phase s \<or> ph = TRUMP_SELECTION)"
proof -
  define s2 where "s2 = (if amt \<noteq> None then s\<lparr>bids := bids s @ [Bid x amt], current_bid := Some (Bid x amt)\<rparr>
                         else s\<lparr>bids := bids s @ [Bid x amt]\<rparr>)"
  have s2: "s2 = s\<lparr>bids := bids s2, current_bid := current_bid s2, bid_turn_seat := bid_turn_seat s,
                    trumper_seat := trumper_seat s, phase := phase s\<rparr>"
    unfolding s2_def by simp
  from assms have a: "advance_bidding s2 = Inr (ev, s')"
    unfolding place_bid_def Let_def s2_def by simp
  then obtain r where r: "advance_scan (length (players s2)) s2 (bid_turn_seat s2) = Inr r"
    unfolding advance_bidding_def by (cases "advance_scan (length (players s2)) s2 (bid_turn_seat s2)") simp_all
  show ?thesis
  proof (cases r)
    case None
    with a r have c: "conclude_bidding s2 = (ev, s')" by (simp add: advance_bidding_def)
    show ?thesis
    proof (cases "current_bid s2")
      case None
      with c have "s' = s2\<lparr>bids := bids s2 @ [Bid (dealer_seat s2) (Some MIN_BID)],
                            current_bid := Some (Bid (dealer_seat s2) (Some MIN_BID)),
                            trumper_seat := Some (dealer_seat s2), phase := TRUMP_SELECTION\<rparr>"
        by (simp add: conclude_bidding_def Let_def)
      then have "s' = s\<lparr>bids := bids s2 @ [Bid (dealer_seat s2) (Some MIN_BID)],
                          current_bid := Some (Bid (dealer_seat s2) (Some MIN_BID)),
                          bid_turn_seat := bid_turn_seat s,
                          trumper_seat := Some (dealer_seat s2), phase := TRUMP_SELECTION\<rparr>"
        by (subst (asm) s2) simp
      then show ?thesis by blast
    next
      case (Some b)
      with c have "s' = s2\<lparr>trumper_seat := Some (bid_seat b), phase := TRUMP_SELECTION\<rparr>"
        by (simp add: conclude_bidding_def Let_def)
      then have "s' = s\<lparr>bids := bids s2, current_bid := current_bid s2,
                          bid_turn_seat := bid_turn_seat s,
                          trumper_seat := Some (bid_seat b), phase := TRUMP_SELECTION\<rparr>"
        by (subst (asm) s2) simp
      then show ?thesis by blast
    qed
  next
    case (Some c)
    with a r have "s' = s2\<lparr>bid_turn_seat := Some c\<rparr>" by (simp add: advance_bidding_def)
    then have "s' = s\<lparr>bids := bids s2, current_bid := current_bid s2, bid_turn_seat := Some c,
                        trumper_seat := trumper_seat s, phase := phase s\<rparr>"
      by (subst (asm) s2) simp
    then show ?thesis by blast
  qed
qed

lemma validate_bid_phase: "validate_bid s x amt = None \<Longrightarrow> phase s = BIDDING"
  by (auto simp: validate_bid_def split: if_splits)

lemma handle_bid_inv:
  assumes "game_inv s" and "handle_bid s x amt = Inr (Ok ev, s')"
  shows "game_inv s'"
proof -
  from assms(2) have v: "validate_bid s x amt = None" and p: "place_bid s x amt = Inr (ev, s')"
    unfolding handle_bid_def by (auto split: option.splits sum.splits)
  from v have ph: "phase s = BIDDING" by (rule validate_bid_phase)
  from place_bid_frame[OF p] obtain bs cb bt ts ph' where
    s': "s' = s\<lparr>bids := bs, current_bid := cb, bid_turn_seat := bt, trumper_seat := ts, phase := ph'\<rparr>"
    and ph': "ph' = phase s \<or> ph' = TRUMP_SELECTION" by blast
  from assms(1) ph ph' show ?thesis
    unfolding s' by (auto simp add: game_inv_def all_cards_def)
qed

lemma set_first_player_frame:
  "set_first_player s = Inr s' \<Longrightarrow> \<exists>ts. s' = s\<lparr>turn_seat := ts, lead_seat := ts, trick_number := 1\<rparr>"
  unfolding set_first_player_def
  by (cases "next_seat s (dealer_seat s)") (auto split: if_splits)

lemma validate_trump_selection_ok:
  "validate_trump_selection s x su c = Inr None \<Longrightarrow>
     phase s = TRUMP_SELECTION \<and> suit c = su
     \<and> (\<exists>p. get_player_by_seat s x = Some p \<and> c \<in> set (hand p))"
  by (auto simp: validate_trump_selection_def split: if_splits option.splits)

lemma select_trump_frame:
  assumes "select_trump s x su c = Inr (ev, s')"
  shows "\<exists>ph ts ls tn. s' = (set_hand s x (remove1 c))\<lparr>trump_suit := Some su, trump_card := Some c,
            trump_revealed := False, phase := ph, turn_seat := ts, lead_seat := ls,
            trick_number := tn\<rparr> \<and> (ph = CARD_EXCHANGE \<or> ph = PLAYING)"
proof -
  define s1 where "s1 = (set_hand s x (remove1 c))\<lparr>trump_suit := Some su, trump_card := Some c,
            trump_revealed := False\<rparr>"
  show ?thesis
  proof (cases "mode s1 = 3")
    case True
    with assms have "s' = s1\<lparr>phase := CARD_EXCHANGE\<rparr>"
      unfolding select_trump_def Let_def s1_def
      by (auto split: option.splits if_splits)
    then have "s' = (set_hand s x (remove1 c))\<lparr>trump_suit := Some su, trump_card := Some c,
            trump_revealed := False, phase := CARD_EXCHANGE, turn_seat := turn_seat s,
            lead_seat := lead_seat s, trick_number := trick_number s\<rparr>"
      unfolding s1_def by (simp add: set_hand_def)
    then show ?thesis by blast
  next
    case False
    with assms have "set_first_player (s1\<lparr>phase := PLAYING\<rparr>) = Inr s'"
      unfolding select_trump_def Let_def s1_def
      by (auto split: option.splits if_splits sum.splits)
    from set_first_player_frame[OF this] obtain ts where
      "s' = s1\<lparr>phase := PLAYING, turn_seat := ts, lead_seat := ts, trick_number := 1\<rparr>" by auto
    then have "s' = (set_hand s x (remove1 c))\<lparr>trump_suit := Some su, trump_card := Some c,
            trump_revealed := False, phase := PLAYING, turn_seat := ts,
            lead_seat := ts, trick_number := 1\<rparr>"
      unfolding s1_def by simp
    then show ?thesis by blast
  qed
qed

lemma handle_trump_selection_inv:
  assumes "game_inv s" and "handle_trump_selection s x suit_str cid = Inr (Ok ev, s')"
  shows "game_inv s'"
proof -
  from assms(2) obtain su c where v: "validate_trump_selection s x su c = Inr None"
    and p: "select_trump s x su c = Inr (ev, s')"
    unfolding handle_trump_selection_def
    by (auto split: option.splits sum.splits if_splits)
  from validate_trump_selection_ok[OF v] obtain pl where ph: "phase s = TRUMP_SELECTION"
    and su: "suit c = su" and g: "get_player_by_seat s x = Some pl" and c: "c \<in> set (hand pl)"
    by blast
  from select_trump_frame[OF p] obtain ph' ts ls tn where
    s': "s' = (set_hand s x (remove1 c))\<lparr>trump_suit := Some su, trump_card := Some c,
            trump_revealed := False, phase := ph', turn_seat := ts, lead_seat := ls,
            trick_number := tn\<rparr>" and ph': "ph' = CARD_EXCHANGE \<or> ph' = PLAYING" by blast
  from assms(1) ph have tc: "trump_card s = None" by (simp add: game_inv_def)
  have cards: "mset (all_cards s') = mset (all_cards s)"
    unfolding s' using hands_remove1[OF g c] tc
    by (simp add: all_cards_def trump_slot_def set_hand_def)
  have len: "length (players s') = length (players s)" unfolding s' by (simp add: set_hand_def)
  have f: "ttl s' = ttl s" "deck s' = deck s" "scores s' = scores s" "mode s' = mode s"
    "phase s' = ph'" "trump_card s' = Some c" "trump_suit s' = Some su"
    "tricks_won s' = tricks_won s" "trump_revealed s' = False"
    unfolding s' by (simp_all add: set_hand_def)
  from assms(1) ph ph' su cards len show ?thesis
    unfolding game_inv_def f by auto
qed

lemma remove_all_cards_mset:
  "remove_all_cards cs h = Inr h' \<Longrightarrow> mset h' + mset cs = mset h"
proof (induction cs arbitrary: h)
  case Nil
  then show ?case by simp
next
  case (Cons c cs)
  from Cons.prems have c: "c \<in> set h" and r: "remove_all_cards cs (remove1 c h) = Inr h'"
    by (auto split: if_splits)
  from Cons.IH[OF r] c show ?case by simp
qed

lemma validate_card_exchange_phase:
  "validate_card_exchange s x cards = Inr None \<Longrightarrow> phase s = CARD_EXCHANGE"
  by (auto simp: validate_card_exchange_def split: if_splits)

lemma exchange_cards_frame:
  assumes "exchange_cards s x cards = Inr (ev, s')"
  shows "\<exists>p h ts. get_player_by_seat s x = Some p \<and> remove_all_cards cards (hand p) = Inr h
           \<and> s' = (set_hand s x (\<lambda>_. h @ center_pile s))\<lparr>center_pile := cards,
                     exchange_done := True, phase := PLAYING, turn_seat := ts, lead_seat := ts,
                     trick_number := 1\<rparr>"
proof -
  from assms obtain p where p: "get_player_by_seat s x = Some p"
    unfolding exchange_cards_def by (cases "get_player_by_seat s x") simp_all
  from assms p obtain h where h: "remove_all_cards cards (hand p) = Inr h"
    unfolding exchange_cards_def by (cases "remove_all_cards cards (hand p)") simp_all
  define s1 where "s1 = (set_hand s x (\<lambda>_. h @ center_pile s))\<lparr>center_pile := cards,
                     exchange_done := True, phase := PLAYING\<rparr>"
  from assms p h have "set_first_player s1 = Inr s'"
    unfolding exchange_cards_def Let_def s1_def
    by (cases "set_first_player ((set_hand s x (\<lambda>_. h @ center_pile s))\<lparr>center_pile := cards,
                     exchange_done := True, phase := PLAYING\<rparr>)") simp_all
  from set_first_player_frame[OF this] obtain ts where
    "s' = s1\<lparr>turn_seat := ts, lead_seat := ts, trick_number := 1\<rparr>" by blast
  then show ?thesis using p h unfolding s1_def by blast
qed

lemma handle_card_exchange_inv:
  assumes "game_inv s" and "handle_card_exchange s x cids = Inr (Ok ev, s')"
  shows "game_inv s'"
proof -
  from assms(2) obtain cards where v: "validate_card_exchange s x cards = Inr None"
    and e: "exchange_cards s x cards = Inr (ev, s')"
    unfolding handle_card_exchange_def
    by (auto split: option.splits sum.splits if_splits)
  from v have ph: "phase s = CARD_EXCHANGE" by (rule validate_card_exchange_phase)
  from exchange_cards_frame[OF e] obtain p h ts where g: "get_player_by_seat s x = Some p"
    and h: "remove_all_cards cards (hand p) = Inr h"
    and s': "s' = (set_hand s x (\<lambda>_. h @ center_pile s))\<lparr>center_pile := cards,
                     exchange_done := True, phase := PLAYING, turn_seat := ts, lead_seat := ts,
                     trick_number := 1\<rparr>" by blast
  have "mset (concat (map hand (players (set_hand s x (\<lambda>_. h @ center_pile s))))) + mset (hand p)
          = mset (concat (map hand (players s))) + mset (h @ center_pile s)"
    by (rule hands_set_hand[OF g])
  then have "mset (concat (map hand (players (set_hand s x (\<lambda>_. h @ center_pile s)))))
               + (mset h + mset cards)
          = mset (concat (map hand (players s))) + mset (h @ center_pile s)"
    unfolding remove_all_cards_mset[OF h] .
  then have "mset (concat (map hand (players (set_hand s x (\<lambda>_. h @ center_pile s))))) + mset cards
          = mset (concat (map hand (players s))) + mset (center_pile s)"
    by simp
  then have cards: "mset (all_cards s') = mset (all_cards s)"
    unfolding s' by (simp add: all_cards_def set_hand_def)
  have len: "length (players s') = length (players s)" unfolding s' by (simp add: set_hand_def)
  have f: "ttl s' = ttl s" "deck s' = deck s" "scores s' = scores s" "mode s' = mode s"
    "phase s' = PLAYING" "trump_card s' = trump_card s" "trump_suit s' = trump_suit s"
    "tricks_won s' = tricks_won s" "trump_revealed s' = trump_revealed s"
    unfolding s' by (simp_all add: set_hand_def)
  from assms(1) ph cards len show ?thesis
    unfolding game_inv_def f by auto
qed

lemma handle_skip_exchange_inv:
  assumes "game_inv s" and "handle_skip_exchange s x = Inr (Ok ev, s')"
  shows "game_inv s'"
proof -
  from assms(2) have ph: "phase s = CARD_EXCHANGE"
    and f: "set_first_player (s\<lparr>exchange_done := True, phase := PLAYING\<rparr>) = Inr s'"
    unfolding handle_skip_exchange_def skip_exchange_def
    by (auto split: sum.splits if_splits reply.splits)
  from set_first_player_frame[OF f] obtain ts where
    s': "s' = s\<lparr>exchange_done := True, phase := PLAYING, turn_seat := ts, lead_seat := ts,
                 trick_number := 1\<rparr>" by auto
  from assms(1) ph show ?thesis
    unfolding s' by (simp add: game_inv_def all_cards_def)
qed

lemma take_add_drop: "take b (drop i d) @ take n (drop (i + b) d) = take (b + n) (drop i d)"
  by (simp add: take_add add.commute)

lemma deal_round_cards:
  "deal_round b xs d i s = Inr (s', j) \<Longrightarrow>
     j = i + b * length xs
     \<and> mset (concat (map hand (players s')))
         = mset (concat (map hand (players s))) + mset (take (b * length xs) (drop i d))"
proof (induction xs arbitrary: s i)
  case Nil
  then show ?case by simp
next
  case (Cons x xs)
  let ?s1 = "set_hand s x (\<lambda>h. h @ take b (drop i d))"
  from Cons.prems obtain p where p: "get_player_by_seat s x = Some p"
    and r: "deal_round b xs d (i + b) ?s1 = Inr (s', j)"
    by (auto split: option.splits)
  from Cons.IH[OF r] have j: "j = i + b + b * length xs"
    and m: "mset (concat (map hand (players s')))
         = mset (concat (map hand (players ?s1))) + mset (take (b * length xs) (drop (i + b) d))"
    by auto
  have "mset (take b (drop i d)) + mset (take (b * length xs) (drop (i + b) d))
          = mset (take (b + b * length xs) (drop i d))"
    unfolding take_add_drop[of b i d "b * length xs", symmetric] by simp
  with m hands_append[OF p, of "take b (drop i d)"] j show ?case
    by (simp add: add.assoc)
qed

lemma deal_rounds_cards:
  "deal_rounds bs xs d i s = Inr (s', j) \<Longrightarrow>
     j = i + sum_list bs * length xs
     \<and> mset (concat (map hand (players s')))
         = mset (concat (map hand (players s))) + mset (take (sum_list bs * length xs) (drop i d))"
proof (induction bs arbitrary: s i)
  case Nil
  then show ?case by simp
next
  case (Cons b bs)
  from Cons.prems obtain s1 i1 where
    r1: "deal_round b xs d i s = Inr (s1, i1)" and r2: "deal_rounds bs xs d i1 s1 = Inr (s', j)"
    by (auto split: sum.splits)
  from deal_round_cards[OF r1] have i1: "i1 = i + b * length xs"
    and m1: "mset (concat (map hand (players s1)))
         = mset (concat (map hand (players s))) + mset (take (b * length xs) (drop i d))"
    by auto
  from Cons.IH[OF r2] have j: "j = i1 + sum_list bs * length xs"
    and m2: "mset (concat (map hand (players s')))
         = mset (concat (map hand (players s1)))
           + mset (take (sum_list bs * length xs) (drop i1 d))"
    by auto
  have "mset (take (b * length xs) (drop i d)) + mset (take (sum_list bs * length xs) (drop i1 d))
          = mset (take (b * length xs + sum_list bs * length xs) (drop i d))"
    unfolding i1 take_add_drop[of "b * length xs" i d "sum_list bs * length xs", symmetric]
    by simp
  with m1 m2 i1 j show ?case
    by (simp add: add.assoc distrib_right)
qed

lemma hands_cleared:
  "mset (concat (map hand (map (\<lambda>p. p\<lparr>hand := []\<rparr>) ps))) = {#}"
  by (induction ps) simp_all

lemma deal_cards:
  assumes d: "deal s d = Inr s'"
    and m: "mode s \<in> {2, 3, 4}" and n: "int (length (players s)) = mode s"
    and len: "length d = 32"
  shows "mset (concat (map hand (players s'))) + mset (center_pile s') = mset d"
proof -
  let ?s0 = "s\<lparr>players := map (\<lambda>p. p\<lparr>hand := []\<rparr>) (players s), center_pile := []\<rparr>"
  from d obtain idx where idx: "index_of (sort (map seat (players s))) (dealer_seat s) = Some idx"
    by (auto simp: deal_def Let_def split: option.splits)
  let ?ord = "map (\<lambda>i. sort (map seat (players s)) ! ((idx + 1 + i) mod length (players s)))
                 [0 ..< length (players s)]"
  have lo: "length ?ord = length (players s)" by simp
  have h0: "mset (concat (map hand (players ?s0))) = {#}" by (simp add: hands_cleared)
  from m consider "mode s = 2 \<or> mode s = 3" | "mode s = 4" by auto
  then show ?thesis
  proof cases
    case 1
    with d idx obtain s1 j where r: "deal_rounds [4, 4, 2] ?ord d 0 ?s0 = Inr (s1, j)"
      and s': "s' = s1\<lparr>center_pile := drop j d, deck := []\<rparr>"
      by (auto simp: deal_def Let_def split: if_splits sum.splits)
    from deal_rounds_cards[OF r] h0 lo
    have "mset (concat (map hand (players s1))) = mset (take j d)" by simp
    moreover have "mset (take j d) + mset (drop j d) = mset d"
      unfolding mset_append[symmetric] by simp
    ultimately show ?thesis unfolding s' by simp
  next
    case 2
    with d idx obtain s1 j where r: "deal_rounds [4, 4] ?ord d 0 ?s0 = Inr (s1, j)"
      and s': "s' = s1\<lparr>deck := []\<rparr>"
      by (auto simp: deal_def Let_def split: if_splits sum.splits)
    from deal_rounds_frame[OF r] have cp: "center_pile s1 = []" by auto
    from 2 n have "length (players s) = 4" by simp
    with deal_rounds_cards[OF r] h0 lo len
    have "mset (concat (map hand (players s1))) = mset d" by simp
    then show ?thesis unfolding s' using cp by simp
  qed
qed

lemma start_bidding_frame:
  "start_bidding s = Inr s' \<Longrightarrow>
     \<exists>n. s' = s\<lparr>phase := BIDDING, bids := [], current_bid := None, bid_turn_seat := Some n\<rparr>"
  unfolding start_bidding_def by (cases "next_seat s (dealer_seat s)") auto

lemma dealt_inv:
  assumes d: "deal r d = Inr s1" and b: "start_bidding s1 = Inr s'"
    and sh: "mset d = mset create_deck"
    and r: "ttl r = None" "distinct (map fst (scores r))" "mode r \<in> {2, 3, 4}"
      "int (length (players r)) = mode r" "tricks_won r = []" "current_trick r = []"
      "trump_card r = None"
  shows "game_inv s'"
proof -
  have len: "length d = 32" using sh length_create_deck by (metis size_mset)
  from deal_frame[OF d] obtain ps cp where
    s1: "s1 = r\<lparr>players := ps, center_pile := cp, deck := []\<rparr>" and sp: "same_people r s1"
    by blast
  from start_bidding_frame[OF b] obtain n where
    s': "s' = s1\<lparr>phase := BIDDING, bids := [], current_bid := None, bid_turn_seat := Some n\<rparr>"
    by blast
  from sp have "length (map seat (players s1)) = length (map seat (players r))"
    unfolding same_people_def by metis
  then have lp: "length ps = length (players r)" unfolding s1 by simp
  from deal_cards[OF d r(3,4) len] have "mset (concat (map hand ps)) + mset cp = mset d"
    unfolding s1 by simp
  then have cards: "mset (all_cards s') = mset create_deck"
    unfolding s' s1 using r(5,6,7) sh by (simp add: all_cards_def trump_slot_def)
  have f: "ttl s' = None" "deck s' = []" "scores s' = scores r" "mode s' = mode r"
    "phase s' = BIDDING" "trump_card s' = None" "tricks_won s' = []" "players s' = ps"
    unfolding s' s1 using r by simp_all
  from r lp cards show ?thesis
    unfolding game_inv_def f by simp
qed

lemma start_game_inv:
  assumes "game_inv s" and "mset d = mset create_deck" and "start_game s r d = Inr (None, s')"
  shows "game_inv s'"
proof -
  let ?s0 = "s\<lparr>dealer_seat := choice (map seat (players s)) r, phase := DEALING\<rparr>"
  from assms(3) have ph: "phase s = WAITING" and n: "int (length (players s)) = mode s"
    unfolding start_game_def by (auto split: if_splits)
  from assms(3) ph n obtain s1 where d: "deal ?s0 d = Inr s1" and b: "start_bidding s1 = Inr s'"
    unfolding start_game_def by (auto split: if_splits sum.splits)
  from assms(1) ph n show ?thesis
    by (intro dealt_inv[OF d b assms(2)]) (simp_all add: game_inv_def)
qed

lemma next_game_inv:
  assumes "game_inv s" and "mset d = mset create_deck" and "next_game s d = Inr (None, s')"
  shows "game_inv s'"
proof -
  from assms(3) have ph: "phase s = SCORING"
    unfolding next_game_def by (auto split: if_splits)
  from assms(3) ph obtain n s1 where
    d: "deal (next_game_reset (s\<lparr>dealer_seat := n\<rparr>)) d = Inr s1"
    and b: "start_bidding s1 = Inr s'"
    unfolding next_game_def by (auto split: sum.splits)
  from assms(1) ph show ?thesis
    by (intro dealt_inv[OF d b assms(2)]) (simp_all add: game_inv_def next_game_reset_def)
qed

lemma join_game_inv:
  assumes "game_inv s" and "join_game s player_name uuid = Inr (Inr p, s')"
  shows "game_inv s'"
proof -
  from assms(2) have ph: "phase s = WAITING" and "\<exists>pl. s' = s\<lparr>players := players s @ [pl]\<rparr>"
    unfolding join_game_def Let_def by (auto split: if_splits option.splits)
  then obtain pl where s': "s' = s\<lparr>players := players s @ [pl]\<rparr>" by blast
  from assms(1) ph show ?thesis unfolding s' by (simp add: game_inv_def)
qed

lemma distinct_init_scores:
  "distinct (map fst sc) \<Longrightarrow> distinct (map fst (foldl (\<lambda>d i. AList.update i 0 d) sc xs))"
  by (induction xs arbitrary: sc) (simp_all add: distinct_update)

lemma create_game_inv:
  assumes "create_game m creator code uuid now = Inr (s, p)"
  shows "game_inv s"
proof -
  from assms have m: "m \<in> {2, 3, 4}"
    unfolding create_game_def by (auto split: if_splits)
  with assms show ?thesis
    unfolding create_game_def Let_def game_inv_def
    by (auto simp add: distinct_init_scores)
qed

lemma update_by_id_hands [simp]:
  "map hand (update_player_by_id pid (\<lambda>p. p\<lparr>connection_id := conn\<rparr>) ps) = map hand ps"
  by (induction ps) auto

lemma length_update_by_id [simp]: "length (update_player_by_id pid f ps) = length ps"
  by (induction ps) auto

lemma set_connection_inv: "game_inv s \<Longrightarrow> game_inv (set_connection s pid conn)"
  by (simp add: game_inv_def set_connection_def all_cards_def)

lemma schedule_turn_timer_inv: "game_inv s \<Longrightarrow> game_inv (schedule_turn_timer s deadline)"
  by (simp add: game_inv_def schedule_turn_timer_def all_cards_def)

lemma recode_inv: "game_inv s \<Longrightarrow> game_inv (s\<lparr>game_code := code\<rparr>)"
  by (simp add: game_inv_def all_cards_def)

lemma reachable_inv: "reachable s \<Longrightarrow> game_inv s"
proof (induction rule: reachable.induct)
  case (created m creator code uuid now s p)
  then show ?case by (rule create_game_inv)
next
  case (recoded s code)
  then show ?case by (simp add: recode_inv)
next
  case (joined s player_name uuid p s')
  then show ?case by (blast intro: join_game_inv)
next
  case (connected s pid conn)
  then show ?case by (simp add: set_connection_inv)
next
  case (scheduled s deadline)
  then show ?case by (simp add: schedule_turn_timer_inv)
next
  case (started s d r s')
  then show ?case by (blast intro: start_game_inv)
next
  case (bid s x amt ev s')
  then show ?case by (blast intro: handle_bid_inv)
next
  case (trump_selected s x suit_str cid ev s')
  then show ?case by (blast intro: handle_trump_selection_inv)
next
  case (exchanged s x cids ev s')
  then show ?case by (blast intro: handle_card_exchange_inv)
next
  case (exchange_skipped s x ev s')
  then show ?case by (blast intro: handle_skip_exchange_inv)
next
  case (played s x cid ev s')
  then show ?case by (blast intro: handle_play_card_inv)
next
  case (asked s x ev s')
  then show ?case by (simp add: handle_ask_trump_never)
next
  case (asked_repaired s x ev s')
  then show ?case by (blast intro: ask_trump_reveal_inv)
next
  case (revealed s x ev s')
  then show ?case by (blast intro: handle_reveal_trump_inv)
next
  case (timed_out s x r1 r2 ev s')
  then show ?case by (blast intro: handle_timeout_inv)
next
  case (next_started s d s')
  then show ?case by (blast intro: next_game_inv)
qed

lemma deck_points: "sum_list (map points create_deck) = 304"
  by (simp add: create_deck_def points_def)

lemma distinct_create_deck: "distinct create_deck"
  by (simp add: create_deck_def)

lemma mset_sum_points:
  "mset xs = mset ys \<Longrightarrow> sum_list (map points xs) = sum_list (map points ys)"
  by (metis mset_map sum_mset_sum_list)

text \<open>
  C2. In every reachable game that has left \<open>WAITING\<close> (that is, from \<open>DEALING\<close> onward) the
  cards in the hands, the center pile, the piles of tricks won, the current trick and the
  concealed trump slot are the 32 cards of the deck, each exactly once, and their points add
  up to 304.
\<close>

theorem card_conservation:
  assumes "reachable s" and "phase s \<noteq> WAITING"
  shows "mset (all_cards s) = mset create_deck \<and> distinct (all_cards s)
         \<and> sum_list (map points (all_cards s)) = 304"
proof -
  from reachable_inv[OF assms(1)] assms(2)
  have m: "mset (all_cards s) = mset create_deck" by (simp add: game_inv_def)
  then have "distinct (all_cards s)"
    using distinct_create_deck by (metis mset_eq_imp_distinct_iff)
  moreover have "sum_list (map points (all_cards s)) = 304"
    using mset_sum_points[OF m] deck_points by simp
  ultimately show ?thesis using m by simp
qed

lemma ex_lobby_created:
  "\<exists>p. create_game 4 ''Alice'' ''ABC123'' ''u0'' ''t0'' = Inr (ex_lobby, p)"
  by (simp add: create_game_def ex_lobby_def upt_small Let_def)

lemma ex_full_reachable: "reachable ex_full"
proof -
  from ex_lobby_created have r0: "reachable ex_lobby" by (blast intro: reachable.created)
  define s1 where "s1 = ex_lobby\<lparr>players := players ex_lobby @
     [\<lparr>player_id = ''u1'', name = ''Bob'', seat = 1, connection_id = None, hand = []\<rparr>]\<rparr>"
  have "\<exists>p. join_game ex_lobby ''Bob'' ''u1'' = Inr (Inr p, s1)"
    by (simp add: join_game_def ex_lobby_def s1_def upt_small Let_def)
  with r0 have r1: "reachable s1" by (blast intro: reachable.joined)
  define s2 where "s2 = s1\<lparr>players := players s1 @
     [\<lparr>player_id = ''u2'', name = ''Carol'', seat = 2, connection_id = None, hand = []\<rparr>]\<rparr>"
  have "\<exists>p. join_game s1 ''Carol'' ''u2'' = Inr (Inr p, s2)"
    by (simp add: join_game_def ex_lobby_def s1_def s2_def upt_small Let_def)
  with r1 have r2: "reachable s2" by (blast intro: reachable.joined)
  have "\<exists>p. join_game s2 ''Dave'' ''u3'' = Inr (Inr p, ex_full)"
    by (simp add: join_game_def ex_lobby_def s1_def s2_def ex_full_def upt_small Let_def)
  with r2 show ?thesis by (blast intro: reachable.joined)
qed

lemma ex_started:
  "\<exists>s. start_game ex_full 0 create_deck = Inr (None, s) \<and> phase s = BIDDING"
  by (simp add: start_game_def ex_full_def ex_lobby_def choice_def deal_def Let_def upt_small
      get_player_by_seat_def set_hand_def start_bidding_def next_seat_def mod_Suc)

theorem card_conservation_witness:
  "\<exists>s. reachable s \<and> phase s \<noteq> WAITING \<and> mset (all_cards s) = mset create_deck
       \<and> distinct (all_cards s) \<and> sum_list (map points (all_cards s)) = 304"
proof -
  from ex_started obtain s where s: "start_game ex_full 0 create_deck = Inr (None, s)"
    and ph: "phase s = BIDDING" by blast
  from ex_full_reachable s have r: "reachable s" by (blast intro: reachable.started)
  from ph have nw: "phase s \<noteq> WAITING" by simp
  from card_conservation[OF r nw] r nw show ?thesis by blast
qed

section \<open>Playing a concealed trump\<close>

lemma moved_fields:
  assumes "moved s s'"
  shows "map seat (players s') = map seat (players s)" "phase s' = phase s" "mode s' = mode s"
    "trump_card s' = trump_card s" "trump_suit s' = trump_suit s"
    "trumper_seat s' = trumper_seat s" "current_bid s' = current_bid s"
    "trick_seated s \<longrightarrow> trick_seated s'" "set (played_cards s) \<subseteq> set (played_cards s')"
proof -
  from assms obtain ps cp tw ct ts ls tn tr where
    a: "s' = s\<lparr>players := ps, center_pile := cp, tricks_won := tw, current_trick := ct,
               turn_seat := ts, lead_seat := ls, trick_number := tn, trump_revealed := tr\<rparr>"
    "map seat ps = map seat (players s)"
    "trick_seated s \<longrightarrow> trick_seated s'"
    "set (played_cards s) \<subseteq> set (played_cards s')"
    unfolding moved_def by blast
  show "map seat (players s') = map seat (players s)" using a(2) unfolding a(1) by simp
  show "phase s' = phase s" "mode s' = mode s" "trump_card s' = trump_card s"
    "trump_suit s' = trump_suit s" "trumper_seat s' = trumper_seat s"
    "current_bid s' = current_bid s"
    unfolding a(1) by simp_all
  show "trick_seated s \<longrightarrow> trick_seated s'" by (rule a(3))
  show "set (played_cards s) \<subseteq> set (played_cards s')" by (rule a(4))
qed

lemma moved_play_inv:
  assumes "play_inv s" and "moved s s'"
  shows "play_inv s'"
  using assms(1) unfolding play_inv_def moved_fields(1-7)[OF assms(2)]
  using moved_fields(8)[OF assms(2)] by simp

lemma score_game_frame:
  assumes "score_game s = Inr (ev, s')"
  shows "\<exists>sc gp. s' = s\<lparr>phase := SCORING, scores := sc, games_played := gp\<rparr>"
proof (cases "check_spoilt_trump (s\<lparr>phase := SCORING\<rparr>)")
  case True
  with assms have "s' = s\<lparr>phase := SCORING\<rparr>"
    by (simp add: score_game_def Let_def)
  then have "s' = s\<lparr>phase := SCORING, scores := scores s, games_played := games_played s\<rparr>"
    by simp
  then show ?thesis by blast
next
  case False
  with assms obtain b a where b: "current_bid s = Some b" "amount b = Some a"
    by (auto simp add: score_game_def Let_def split: option.splits)
  show ?thesis
  proof (cases "fst (calculate_team_points (s\<lparr>phase := SCORING\<rparr>)) \<ge> a")
    case True
    with assms False b
    have "s' = s\<lparr>phase := SCORING,
                  scores := award (get_trumper_team_seats (s\<lparr>phase := SCORING\<rparr>))
                              (fst (get_scoring_points a)) (scores s),
                  games_played := games_played s + 1\<rparr>"
      by (simp add: score_game_def Let_def)
    then show ?thesis by blast
  next
    case nw: False
    with assms False b
    have "s' = s\<lparr>phase := SCORING,
                  scores := award (get_opposing_team_seats (s\<lparr>phase := SCORING\<rparr>))
                              (snd (get_scoring_points a)) (scores s),
                  games_played := games_played s + 1\<rparr>"
      by (simp add: score_game_def Let_def)
    then show ?thesis by blast
  qed
qed

lemma score_game_play_inv:
  assumes "play_inv s" and "score_game s = Inr (ev, s')"
  shows "play_inv s'"
proof -
  from score_game_frame[OF assms(2)] obtain sc gp where
    s': "s' = s\<lparr>phase := SCORING, scores := sc, games_played := gp\<rparr>" by blast
  from assms(1) show ?thesis
    unfolding s' by (simp add: play_inv_def trick_seated_def)
qed

lemma played_play_inv:
  assumes "play_inv s" and "play_card s x c = Inr (result, s1)"
    and "s' = s1 \<or> (\<exists>scoring. score_game s1 = Inr (scoring, s'))"
  shows "play_inv s'"
proof -
  from moved_play_inv[OF assms(1) play_card_moved[OF assms(2)]] have "play_inv s1" .
  with assms(3) show ?thesis using score_game_play_inv by blast
qed

lemma handle_play_card_play_inv:
  assumes "play_inv s" and "handle_play_card s x cid = Inr (Ok ev, s')"
  shows "play_inv s'"
proof -
  from assms(2) obtain c where
    r: "\<exists>result s1. play_card s x c = Inr (result, s1)
              \<and> (s' = s1 \<or> (\<exists>scoring. score_game s1 = Inr (scoring, s')))"
    unfolding handle_play_card_def Let_def
    by (auto split: sum.splits if_splits option.splits prod.splits)
  then show ?thesis using played_play_inv[OF assms(1)] by blast
qed

lemma handle_timeout_play_inv:
  assumes "play_inv s" and "handle_timeout s x r1 r2 = Inr (Ok ev, s')"
  shows "play_inv s'"
proof -
  from assms(2) have
    r: "\<exists>result s1. auto_play s x r1 r2 = Inr (result, s1)
              \<and> (s' = s1 \<or> (\<exists>scoring. score_game s1 = Inr (scoring, s')))"
    unfolding handle_timeout_def
    by (auto split: sum.splits if_splits prod.splits)
  then obtain result s1 where p: "auto_play s x r1 r2 = Inr (result, s1)"
    and q: "s' = s1 \<or> (\<exists>scoring. score_game s1 = Inr (scoring, s'))" by blast
  from moved_play_inv[OF assms(1) auto_play_moved[OF p]] have "play_inv s1" .
  with q show ?thesis using score_game_play_inv by blast
qed

lemma handle_reveal_trump_play_inv:
  assumes "play_inv s" and "handle_reveal_trump s x = Inr (Ok ev, s')"
  shows "play_inv s'"
proof -
  from assms(2) have "\<exists>r res. reveal_trump s r = Inr (res, s')"
    unfolding handle_reveal_trump_def
    by (auto split: sum.splits if_splits prod.splits option.splits)
  then show ?thesis using moved_play_inv[OF assms(1)] reveal_trump_moved by blast
qed

lemma create_game_play_inv:
  assumes "create_game m creator code uuid now = Inr (s, p)"
  shows "play_inv s"
  using assms unfolding create_game_def Let_def play_inv_def trick_seated_def
  by (auto split: if_splits)

lemma join_game_play_inv:
  assumes "game_inv s" and "play_inv s" and "join_game s player_name uuid = Inr (Inr p, s')"
  shows "play_inv s'"
proof -
  from assms(3) have ph: "phase s = WAITING" and "\<exists>pl. s' = s\<lparr>players := players s @ [pl]\<rparr>"
    unfolding join_game_def Let_def by (auto split: if_splits option.splits)
  then obtain pl where s': "s' = s\<lparr>players := players s @ [pl]\<rparr>" by blast
  from assms(1) ph have "current_trick s = []" "trump_card s = None"
    by (simp_all add: game_inv_def)
  with assms(2) show ?thesis unfolding s' by (simp add: play_inv_def trick_seated_def)
qed

lemma update_by_id_seats [simp]:
  "map seat (update_player_by_id pid (\<lambda>p. p\<lparr>connection_id := conn\<rparr>) ps) = map seat ps"
  "seat ` set (update_player_by_id pid (\<lambda>p. p\<lparr>connection_id := conn\<rparr>) ps) = seat ` set ps"
proof -
  show m: "map seat (update_player_by_id pid (\<lambda>p. p\<lparr>connection_id := conn\<rparr>) ps) = map seat ps"
    by (induction ps) auto
  from arg_cong[OF m, of set]
  show "seat ` set (update_player_by_id pid (\<lambda>p. p\<lparr>connection_id := conn\<rparr>) ps) = seat ` set ps"
    by simp
qed

lemma set_connection_play_inv: "play_inv s \<Longrightarrow> play_inv (set_connection s pid conn)"
  by (simp add: play_inv_def set_connection_def trick_seated_def)

lemma schedule_turn_timer_play_inv: "play_inv s \<Longrightarrow> play_inv (schedule_turn_timer s deadline)"
  by (simp add: play_inv_def schedule_turn_timer_def trick_seated_def)

lemma recode_play_inv: "play_inv s \<Longrightarrow> play_inv (s\<lparr>game_code := code\<rparr>)"
  by (simp add: play_inv_def trick_seated_def)

lemma dealt_play_inv:
  assumes d: "deal r d = Inr s1" and b: "start_bidding s1 = Inr s'"
    and r: "current_trick r = []" "trump_card r = None" "trump_suit r = None"
  shows "play_inv s'"
proof -
  from deal_frame[OF d] obtain ps cp where
    s1: "s1 = r\<lparr>players := ps, center_pile := cp, deck := []\<rparr>" by blast
  from start_bidding_frame[OF b] obtain n where
    s': "s' = s1\<lparr>phase := BIDDING, bids := [], current_bid := None, bid_turn_seat := Some n\<rparr>"
    by blast
  from r show ?thesis unfolding s' s1 by (simp add: play_inv_def trick_seated_def)
qed

lemma start_game_play_inv:
  assumes "game_inv s" and "play_inv s" and "start_game s r d = Inr (None, s')"
  shows "play_inv s'"
proof -
  let ?s0 = "s\<lparr>dealer_seat := choice (map seat (players s)) r, phase := DEALING\<rparr>"
  from assms(3) have ph: "phase s = WAITING" and n: "int (length (players s)) = mode s"
    unfolding start_game_def by (auto split: if_splits)
  from assms(3) ph n obtain s1 where d: "deal ?s0 d = Inr s1" and b: "start_bidding s1 = Inr s'"
    unfolding start_game_def by (auto split: if_splits sum.splits)
  from assms(1,2) ph show ?thesis
    by (intro dealt_play_inv[OF d b]) (simp_all add: game_inv_def play_inv_def)
qed

lemma next_game_play_inv:
  assumes "next_game s d = Inr (None, s')"
  shows "play_inv s'"
proof -
  from assms have ph: "phase s = SCORING"
    unfolding next_game_def by (auto split: if_splits)
  from assms ph obtain n s1 where
    d: "deal (next_game_reset (s\<lparr>dealer_seat := n\<rparr>)) d = Inr s1"
    and b: "start_bidding s1 = Inr s'"
    unfolding next_game_def by (auto split: sum.splits)
  show ?thesis
    by (intro dealt_play_inv[OF d b]) (simp_all add: next_game_reset_def)
qed

text \<open>Bidding never clears the standing bid, gives every standing bid an amount, and ends
  with a standing bid.\<close>

lemma place_bid_bid:
  assumes "place_bid s x amt = Inr (ev, s')"
  shows "(phase s' = phase s \<or> (phase s' = TRUMP_SELECTION \<and> current_bid s' \<noteq> None))
    \<and> (current_bid s \<noteq> None \<longrightarrow> current_bid s' \<noteq> None)
    \<and> ((\<forall>b. current_bid s = Some b \<longrightarrow> amount b \<noteq> None)
         \<longrightarrow> (\<forall>b. current_bid s' = Some b \<longrightarrow> amount b \<noteq> None))"
proof -
  define s2 where "s2 = (if amt \<noteq> None then s\<lparr>bids := bids s @ [Bid x amt], current_bid := Some (Bid x amt)\<rparr>
                         else s\<lparr>bids := bids s @ [Bid x amt]\<rparr>)"
  have s2: "phase s2 = phase s" "current_bid s \<noteq> None \<longrightarrow> current_bid s2 \<noteq> None"
    "(\<forall>b. current_bid s = Some b \<longrightarrow> amount b \<noteq> None)
         \<longrightarrow> (\<forall>b. current_bid s2 = Some b \<longrightarrow> amount b \<noteq> None)"
    unfolding s2_def by auto
  from assms have a: "advance_bidding s2 = Inr (ev, s')"
    unfolding place_bid_def Let_def s2_def by simp
  then obtain r where r: "advance_scan (length (players s2)) s2 (bid_turn_seat s2) = Inr r"
    unfolding advance_bidding_def by (cases "advance_scan (length (players s2)) s2 (bid_turn_seat s2)") simp_all
  show ?thesis
  proof (cases r)
    case None
    with a r have c: "conclude_bidding s2 = (ev, s')" by (simp add: advance_bidding_def)
    show ?thesis
    proof (cases "current_bid s2")
      case None
      with c have "s' = s2\<lparr>bids := bids s2 @ [Bid (dealer_seat s2) (Some MIN_BID)],
                            current_bid := Some (Bid (dealer_seat s2) (Some MIN_BID)),
                            trumper_seat := Some (dealer_seat s2), phase := TRUMP_SELECTION\<rparr>"
        by (simp add: conclude_bidding_def Let_def)
      then have e: "phase s' = TRUMP_SELECTION"
        "current_bid s' = Some (Bid (dealer_seat s2) (Some MIN_BID))" by simp_all
      have "\<forall>b. current_bid s' = Some b \<longrightarrow> amount b \<noteq> None"
        unfolding e by simp
      moreover have "current_bid s' \<noteq> None" unfolding e by simp
      ultimately show ?thesis using e(1) by blast
    next
      case (Some b)
      with c have "s' = s2\<lparr>trumper_seat := Some (bid_seat b), phase := TRUMP_SELECTION\<rparr>"
        by (simp add: conclude_bidding_def Let_def)
      then have e: "phase s' = TRUMP_SELECTION" "current_bid s' = current_bid s2" by simp_all
      from Some have "current_bid s2 \<noteq> None" by simp
      with s2 show ?thesis unfolding e by blast
    qed
  next
    case (Some c)
    with a r have "s' = s2\<lparr>bid_turn_seat := Some c\<rparr>" by (simp add: advance_bidding_def)
    then have e: "phase s' = phase s2" "current_bid s' = current_bid s2" by simp_all
    from s2 show ?thesis unfolding e by blast
  qed
qed

lemma handle_bid_play_inv:
  assumes "game_inv s" and "play_inv s" and "handle_bid s x amt = Inr (Ok ev, s')"
  shows "play_inv s'"
proof -
  from assms(3) have v: "validate_bid s x amt = None" and p: "place_bid s x amt = Inr (ev, s')"
    unfolding handle_bid_def by (auto split: option.splits sum.splits)
  from v have ph: "phase s = BIDDING" by (rule validate_bid_phase)
  with assms(1) have tc: "trump_card s = None" by (simp add: game_inv_def)
  from place_bid_frame[OF p] obtain bs cb bt ts ph' where
    s': "s' = s\<lparr>bids := bs, current_bid := cb, bid_turn_seat := bt, trumper_seat := ts, phase := ph'\<rparr>"
    by blast
  have f: "players s' = players s" "current_trick s' = current_trick s"
    "trump_card s' = trump_card s" "trump_suit s' = trump_suit s"
    unfolding s' by simp_all
  from place_bid_bid[OF p] assms(2) ph tc show ?thesis
    unfolding play_inv_def trick_seated_def f by auto
qed

lemma validate_trump_selection_trumper:
  "validate_trump_selection s x su c = Inr None \<Longrightarrow> trumper_seat s = Some x"
  by (auto simp: validate_trump_selection_def split: if_splits option.splits)

lemma handle_trump_selection_play_inv:
  assumes "play_inv s" and "handle_trump_selection s x suit_str cid = Inr (Ok ev, s')"
  shows "play_inv s'"
proof -
  from assms(2) obtain su c where v: "validate_trump_selection s x su c = Inr None"
    and p: "select_trump s x su c = Inr (ev, s')"
    unfolding handle_trump_selection_def
    by (auto split: option.splits sum.splits if_splits)
  from validate_trump_selection_ok[OF v] obtain pl where ph: "phase s = TRUMP_SELECTION"
    and g: "get_player_by_seat s x = Some pl" by blast
  from validate_trump_selection_trumper[OF v] have t: "trumper_seat s = Some x" .
  from select_trump_frame[OF p] obtain ph' ts ls tn where
    s': "s' = (set_hand s x (remove1 c))\<lparr>trump_suit := Some su, trump_card := Some c,
            trump_revealed := False, phase := ph', turn_seat := ts, lead_seat := ls,
            trick_number := tn\<rparr>" and ph': "ph' = CARD_EXCHANGE \<or> ph' = PLAYING" by blast
  have f: "map seat (players s') = map seat (players s)" "current_trick s' = current_trick s"
    "trump_card s' = Some c" "trump_suit s' = Some su" "trumper_seat s' = Some x"
    "current_bid s' = current_bid s" "phase s' = ph'"
    unfolding s' using t by (simp_all add: set_hand_def)
  from assms(1) ph ph' player_seat_mem[OF g] show ?thesis
    unfolding play_inv_def trick_seated_def f by auto
qed

lemma handle_card_exchange_play_inv:
  assumes "play_inv s" and "handle_card_exchange s x cids = Inr (Ok ev, s')"
  shows "play_inv s'"
proof -
  from assms(2) obtain cards where e: "exchange_cards s x cards = Inr (ev, s')"
    unfolding handle_card_exchange_def
    by (auto split: option.splits sum.splits if_splits)
  from exchange_cards_frame[OF e] obtain p h ts where
    s': "s' = (set_hand s x (\<lambda>_. h @ center_pile s))\<lparr>center_pile := cards,
                     exchange_done := True, phase := PLAYING, turn_seat := ts, lead_seat := ts,
                     trick_number := 1\<rparr>" by blast
  have f: "map seat (players s') = map seat (players s)" "current_trick s' = current_trick s"
    "trump_card s' = trump_card s" "trump_suit s' = trump_suit s"
    "trumper_seat s' = trumper_seat s" "current_bid s' = current_bid s" "phase s' = PLAYING"
    unfolding s' by (simp_all add: set_hand_def)
  from assms(1) show ?thesis
    unfolding play_inv_def trick_seated_def f by auto
qed

lemma handle_skip_exchange_play_inv:
  assumes "play_inv s" and "handle_skip_exchange s x = Inr (Ok ev, s')"
  shows "play_inv s'"
proof -
  from assms(2) have
    f: "set_first_player (s\<lparr>exchange_done := True, phase := PLAYING\<rparr>) = Inr s'"
    unfolding handle_skip_exchange_def skip_exchange_def
    by (auto split: sum.splits if_splits reply.splits)
  from set_first_player_frame[OF f] obtain ts where
    s': "s' = s\<lparr>exchange_done := True, phase := PLAYING, turn_seat := ts, lead_seat := ts,
                 trick_number := 1\<rparr>" by auto
  from assms(1) show ?thesis
    unfolding s' by (simp add: play_inv_def trick_seated_def)
qed

lemma ask_trump_reveal_play_inv:
  "play_inv s \<Longrightarrow> ask_trump_reveal s x = Inr (Ok ev, s') \<Longrightarrow> play_inv s'"
  by (blast intro: moved_play_inv ask_trump_reveal_moved)

lemma reachable_play_inv: "reachable s \<Longrightarrow> play_inv s"
proof (induction rule: reachable.induct)
  case (created m creator code uuid now s p)
  then show ?case by (rule create_game_play_inv)
next
  case (recoded s code)
  then show ?case by (simp add: recode_play_inv)
next
  case (joined s player_name uuid p s')
  then show ?case by (blast intro: join_game_play_inv reachable_inv)
next
  case (connected s pid conn)
  then show ?case by (simp add: set_connection_play_inv)
next
  case (scheduled s deadline)
  then show ?case by (simp add: schedule_turn_timer_play_inv)
next
  case (started s d r s')
  then show ?case by (blast intro: start_game_play_inv reachable_inv)
next
  case (bid s x amt ev s')
  then show ?case by (blast intro: handle_bid_play_inv reachable_inv)
next
  case (trump_selected s x suit_str cid ev s')
  then show ?case by (blast intro: handle_trump_selection_play_inv)
next
  case (exchanged s x cids ev s')
  then show ?case by (blast intro: handle_card_exchange_play_inv)
next
  case (exchange_skipped s x ev s')
  then show ?case by (blast intro: handle_skip_exchange_play_inv)
next
  case (played s x cid ev s')
  then show ?case by (blast intro: handle_play_card_play_inv)
next
  case (asked s x ev s')
  then show ?case by (simp add: handle_ask_trump_never)
next
  case (asked_repaired s x ev s')
  then show ?case by (blast intro: ask_trump_reveal_play_inv)
next
  case (revealed s x ev s')
  then show ?case by (blast intro: handle_reveal_trump_play_inv)
next
  case (timed_out s x r1 r2 ev s')
  then show ?case by (blast intro: handle_timeout_play_inv)
next
  case (next_started s d s')
  then show ?case by (blast intro: next_game_play_inv)
qed

text \<open>The play of a card from a seat that has a player raises no exception in a game that
  satisfies the two invariants.\<close>

lemma find_seat_total:
  fixes ps :: "Player list"
  shows "x \<in> set (map seat ps) \<Longrightarrow> \<exists>p. find (\<lambda>p. seat p = x) ps = Some p"
  by (induction ps) auto

lemma get_player_by_seat_total:
  "x \<in> set (map seat (players s)) \<Longrightarrow> \<exists>p. get_player_by_seat s x = Some p"
  unfolding get_player_by_seat_def by (rule find_seat_total)

lemma index_of_total: "x \<in> set xs \<Longrightarrow> \<exists>i. index_of xs x = Some i"
  by (induction xs) auto

lemma next_seat_total:
  assumes "x \<in> set (map seat (players s))"
  shows "\<exists>n. next_seat s x = Inr n \<and> n \<in> set (map seat (players s))"
proof -
  let ?seats = "sort (map seat (players s))"
  from assms have x: "x \<in> set ?seats" by simp
  from index_of_total[OF this] obtain i where i: "index_of ?seats x = Some i" by blast
  from x have "0 < length ?seats" by (rule length_pos_if_in_set)
  then have "(i + 1) mod length ?seats < length ?seats" by (rule mod_less_divisor)
  then have "?seats ! ((i + 1) mod length ?seats) \<in> set ?seats" by (rule nth_mem)
  then have "?seats ! ((i + 1) mod length ?seats) \<in> set (map seat (players s))" by simp
  with i show ?thesis by (simp add: next_seat_def Let_def)
qed

lemma draw_loop_total:
  "set xs \<subseteq> set (map seat (players s)) \<Longrightarrow> \<exists>ds s'. draw_loop xs s draws = Inr (ds, s')"
proof (induction xs arbitrary: s draws)
  case Nil
  then show ?case by simp
next
  case (Cons x xs)
  show ?case
  proof (cases "center_pile s")
    case Nil
    then show ?thesis by simp
  next
    case (Cons c rest)
    from Cons.prems have "x \<in> set (map seat (players s))" by simp
    from get_player_by_seat_total[OF this] obtain p where p: "get_player_by_seat s x = Some p"
      by blast
    let ?s1 = "set_hand (s\<lparr>center_pile := rest\<rparr>) x (\<lambda>h. h @ [c])"
    have "map seat (players ?s1) = map seat (players s)" by (simp add: set_hand_def)
    with Cons.prems have "set xs \<subseteq> set (map seat (players ?s1))" by simp
    from Cons.IH[OF this] obtain ds s' where
      "draw_loop xs ?s1
         (draws @ [PDict [(PStr ''seat'', PInt x), (PStr ''card'', PStr (card_id c))]])
       = Inr (ds, s')" by blast
    with p Cons show ?thesis by simp
  qed
qed

lemma draw_cards_2p_total:
  assumes "w \<in> set (map seat (players s))"
  shows "\<exists>ds s'. draw_cards_2p s w = Inr (ds, s')"
proof -
  from next_seat_total[OF assms] obtain n where n: "next_seat s w = Inr n"
    "n \<in> set (map seat (players s))" by blast
  with assms have "set [w, n] \<subseteq> set (map seat (players s))" by simp
  from draw_loop_total[OF this] n(1) show ?thesis by (simp add: draw_cards_2p_def)
qed

lemma reveal_trump_total:
  assumes "play_inv s"
  shows "\<exists>res s'. reveal_trump s r = Inr (res, s')"
proof (cases "trump_card s")
  case None
  then show ?thesis by (simp add: reveal_trump_def Let_def)
next
  case (Some c)
  with assms obtain t where t: "trumper_seat s = Some t" "t \<in> set (map seat (players s))"
    by (auto simp: play_inv_def)
  from get_player_by_seat_total[OF t(2)] obtain p where "get_player_by_seat s t = Some p"
    by blast
  then have "get_player_by_seat (s\<lparr>trump_revealed := True\<rparr>) t = Some p"
    by (simp add: get_player_by_seat_def)
  with Some t(1) show ?thesis by (simp add: reveal_trump_def Let_def)
qed

lemma two_seat_done_total:
  assumes "game_inv s" and "phase s \<noteq> WAITING"
  shows "\<exists>b. two_seat_done s = Inr b"
proof (cases "mode s = 2")
  case False
  then have "two_seat_done s = Inr False" by (simp add: two_seat_done_def)
  then show ?thesis by blast
next
  case True
  with assms have "length (players s) = 2" by (simp add: game_inv_def)
  then obtain p0 p1 where ps: "players s = [p0, p1]"
    by (auto simp: length_Suc_conv numeral_2_eq_2)
  have "\<exists>q0. get_player_by_seat s (seat p0) = Some q0"
    by (rule get_player_by_seat_total) (simp add: ps)
  moreover have "\<exists>q1. get_player_by_seat s (seat p1) = Some q1"
    by (rule get_player_by_seat_total) (simp add: ps)
  ultimately obtain q0 q1 where "get_player_by_seat s (seat p0) = Some q0"
    "get_player_by_seat s (seat p1) = Some q1" by blast
  with True ps show ?thesis by (simp add: two_seat_done_def)
qed

lemma resolve_game_over_total:
  assumes "game_inv s" and "play_inv s" and "phase s \<noteq> WAITING"
  shows "\<exists>ev s'. resolve_game_over s w result = Inr (ev, s')"
proof -
  from two_seat_done_total[OF assms(1,3)] obtain b where b: "two_seat_done s = Inr b" by blast
  from reveal_trump_total[OF assms(2)] obtain res s1 where
    r: "reveal_trump s (trumper_seat s) = Inr (res, s1)" by blast
  from b r show ?thesis by (cases b) (simp_all add: resolve_game_over_def)
qed

lemma foldl_pick_mem:
  "foldl (\<lambda>w tc. if P tc w then tc else w) a xs \<in> insert a (set xs)"
  by (induction xs arbitrary: a) auto

lemma trick_winner_mem: "trick_winner s first rest \<in> set (first # rest)"
  unfolding trick_winner_def
  using foldl_pick_mem[of "\<lambda>tc w. beats (tc_card tc) (tc_card w) (trump_suit s) (trump_revealed s)
                                      (suit (tc_card first))" first rest]
  by simp

lemma pile_moved:
  "moved s (s\<lparr>tricks_won := AList.update w
        ((case map_of (tricks_won s) w of None \<Rightarrow> [] | Some p \<Rightarrow> p) @ map tc_card (current_trick s))
        (tricks_won s), current_trick := [], trick_number := trick_number s + 1\<rparr>)"
proof -
  define s1 where "s1 = s\<lparr>tricks_won := AList.update w
        ((case map_of (tricks_won s) w of None \<Rightarrow> [] | Some p \<Rightarrow> p) @ map tc_card (current_trick s))
        (tricks_won s), current_trick := [], trick_number := trick_number s + 1\<rparr>"
  have "set (played_cards s) \<subseteq> set (played_cards s1)"
    unfolding s1_def played_cards_def
    by (auto simp add: piles_update_set simp del: set_concat)
  then have "moved s s1"
    unfolding s1_def
    by (intro movedI')
      (simp_all add: all_cards_def piles_update distinct_update trick_seated_def)
  then show ?thesis unfolding s1_def .
qed

lemma resolve_trick_total:
  assumes "game_inv s" and "play_inv s" and "phase s \<noteq> WAITING" and "current_trick s \<noteq> []"
  shows "\<exists>ev s'. resolve_trick s = Inr (ev, s')"
proof -
  from assms(4) obtain first rest where tr: "current_trick s = first # rest"
    by (cases "current_trick s") auto
  define w where "w = tc_seat (trick_winner s first rest)"
  define s1 where "s1 = s\<lparr>tricks_won := AList.update w
        ((case map_of (tricks_won s) w of None \<Rightarrow> [] | Some p \<Rightarrow> p) @ map tc_card (current_trick s))
        (tricks_won s), current_trick := [], trick_number := trick_number s + 1\<rparr>"
  define result where "result = [(''trick_won'', PBool True), (''winner_seat'', PInt w),
      (''trick_points'', PInt (sum_list (map (\<lambda>tc. points (tc_card tc)) (current_trick s))))]"
  have eq: "resolve_trick s =
      (if mode s1 = 2 \<and> center_pile s1 \<noteq> [] then
         (case draw_cards_2p s1 w of
            Inl e \<Rightarrow> Inl e
          | Inr (draws, s2) \<Rightarrow>
              resolve_game_over s2 w (AList.update ''draws'' (PList draws) result))
       else resolve_game_over s1 w result)"
    unfolding resolve_trick_def Let_def s1_def w_def result_def tr by simp
  have m1: "moved s s1" unfolding s1_def by (rule pile_moved)
  from moved_inv[OF assms(1) m1 assms(3)] assms(3)
  have i1: "game_inv s1" "phase s1 \<noteq> WAITING" by simp_all
  from moved_play_inv[OF assms(2) m1] have p1: "play_inv s1" .
  from assms(2) have "trick_seated s" by (simp add: play_inv_def)
  moreover have "trick_winner s first rest \<in> set (current_trick s)"
    unfolding tr by (rule trick_winner_mem)
  ultimately have "w \<in> set (map seat (players s))"
    unfolding w_def trick_seated_def list_all_iff by blast
  then have ws: "w \<in> set (map seat (players s1))" unfolding moved_fields(1)[OF m1] .
  show ?thesis
  proof (cases "mode s1 = 2 \<and> center_pile s1 \<noteq> []")
    case True
    from draw_cards_2p_total[OF ws] obtain ds s2 where d: "draw_cards_2p s1 w = Inr (ds, s2)"
      by blast
    from draw_cards_2p_moved[OF d] have m2: "moved s1 s2" .
    from moved_inv[OF i1(1) m2 i1(2)] i1(2)
    have i2: "game_inv s2" "phase s2 \<noteq> WAITING" by simp_all
    from moved_play_inv[OF p1 m2] have p2: "play_inv s2" .
    from resolve_game_over_total[OF i2(1) p2 i2(2)] obtain ev s' where
      "resolve_game_over s2 w (AList.update ''draws'' (PList ds) result) = Inr (ev, s')"
      by blast
    with d show ?thesis unfolding eq if_P[OF True] by simp
  next
    case False
    from resolve_game_over_total[OF i1(1) p1 i1(2)] obtain ev s' where
      "resolve_game_over s1 w result = Inr (ev, s')" by blast
    then show ?thesis unfolding eq if_not_P[OF False] by blast
  qed
qed

lemma play_moved:
  assumes "get_player_by_seat s x = Some p" and "c \<in> set (hand p)"
  shows "moved s ((set_hand s x (remove1 c))\<lparr>current_trick := current_trick s @ [TrickCard x c]\<rparr>)"
  using hands_remove1[OF assms] player_seat_mem[OF assms(1)]
  by (intro movedI')
    (auto simp add: all_cards_def set_hand_def trick_seated_def played_cards_def)

lemma play_card_eq:
  assumes "get_player_by_seat s x = Some p" and "c \<in> set (hand p)"
  shows "play_card s x c =
     (let s2 = (set_hand s x (remove1 c))\<lparr>current_trick := current_trick s @ [TrickCard x c]\<rparr>;
          result = [(''card_played'', PStr (card_id c)), (''seat'', PInt x),
                    (''is_cut'', PBool (get_calling_suit s \<noteq> None
                         \<and> Some (suit c) \<noteq> get_calling_suit s
                         \<and> trump_revealed s \<and> Some (suit c) = trump_suit s))]
      in if length (current_trick s2) = length (players s2) then
           (case resolve_trick s2 of
              Inl e \<Rightarrow> Inl e
            | Inr (trick_result, s3) \<Rightarrow> Inr (dict_update result trick_result, s3))
         else
           (case next_seat s2 x of
              Inl e \<Rightarrow> Inl e
            | Inr n \<Rightarrow> Inr (AList.update ''next_turn'' (PInt n) result, s2\<lparr>turn_seat := Some n\<rparr>)))"
proof -
  have f: "current_trick (set_hand s x (remove1 c)) = current_trick s"
    "trump_revealed (set_hand s x (remove1 c)) = trump_revealed s"
    "trump_suit (set_hand s x (remove1 c)) = trump_suit s"
    "get_calling_suit (set_hand s x (remove1 c)) = get_calling_suit s"
    by (simp_all add: set_hand_def get_calling_suit_def)
  show ?thesis unfolding play_card_def Let_def f using assms by simp
qed

lemma play_card_total:
  assumes "game_inv s" and "play_inv s" and "phase s \<noteq> WAITING"
    and "get_player_by_seat s x = Some p" and "c \<in> set (hand p)"
  shows "\<exists>ev s'. play_card s x c = Inr (ev, s')"
proof -
  define s2 where "s2 = (set_hand s x (remove1 c))\<lparr>current_trick := current_trick s @ [TrickCard x c]\<rparr>"
  have m2: "moved s s2" unfolding s2_def by (rule play_moved[OF assms(4,5)])
  from moved_inv[OF assms(1) m2 assms(3)] assms(3)
  have i2: "game_inv s2" "phase s2 \<noteq> WAITING" by simp_all
  from moved_play_inv[OF assms(2) m2] have p2: "play_inv s2" .
  have ct: "current_trick s2 \<noteq> []" unfolding s2_def by simp
  have "x \<in> set (map seat (players s2))"
    unfolding moved_fields(1)[OF m2] by (rule player_seat_mem[OF assms(4)])
  from next_seat_total[OF this] obtain n where n: "next_seat s2 x = Inr n" by blast
  from resolve_trick_total[OF i2(1) p2 i2(2) ct] obtain tr s3 where
    r: "resolve_trick s2 = Inr (tr, s3)" by blast
  from n r show ?thesis
    unfolding play_card_eq[OF assms(4,5)] Let_def s2_def[symmetric] by simp
qed

lemma score_game_total:
  assumes "current_bid s = Some b" and "amount b = Some a"
  shows "\<exists>ev s'. score_game s = Inr (ev, s')
           \<and> ''card_played'' \<notin> fst ` set ev \<and> ''is_cut'' \<notin> fst ` set ev"
proof (cases "check_spoilt_trump (s\<lparr>phase := SCORING\<rparr>)")
  case True
  then show ?thesis by (simp add: score_game_def Let_def)
next
  case False
  with assms show ?thesis by (simp add: score_game_def Let_def)
qed

lemma resolve_game_over_played:
  "resolve_game_over s w result = Inr (ev, s') \<Longrightarrow>
     map_of ev ''card_played'' = map_of result ''card_played''"
  by (auto simp: resolve_game_over_def Let_def update_conv
      split: if_splits sum.splits list.splits option.splits bool.splits prod.splits)

lemma resolve_trick_played:
  "resolve_trick s = Inr (ev, s') \<Longrightarrow> ''card_played'' \<notin> fst ` set ev"
  by (auto simp: resolve_trick_def Let_def update_conv map_of_eq_None_iff[symmetric]
      split: if_splits sum.splits list.splits prod.splits dest!: resolve_game_over_played)

lemma play_card_played:
  assumes "play_card s x c = Inr (ev, s')"
  shows "dict_get ev ''card_played'' = PStr (card_id c)"
  using assms
  by (auto simp: play_card_def Let_def dict_get_def dict_update_other update_conv
      set_hand_def get_calling_suit_def
      split: option.splits if_splits sum.splits prod.splits dest!: resolve_trick_played)

lemma play_card_in_played_cards:
  assumes "play_card s x c = Inr (ev, s')"
  shows "c \<in> set (played_cards s')"
proof -
  from assms obtain p where p: "get_player_by_seat s x = Some p" and c: "c \<in> set (hand p)"
    by (auto simp: play_card_def split: option.splits if_splits)
  define s2 where "s2 = (set_hand s x (remove1 c))\<lparr>current_trick := current_trick s @ [TrickCard x c]\<rparr>"
  have c2: "c \<in> set (played_cards s2)" unfolding s2_def played_cards_def by simp
  from assms consider tr where "resolve_trick s2 = Inr (tr, s')"
    | n where "s' = s2\<lparr>turn_seat := Some n\<rparr>"
    unfolding play_card_eq[OF p c] Let_def s2_def[symmetric]
    by (auto split: if_splits sum.splits prod.splits)
  then show ?thesis
  proof cases
    case 1
    from moved_fields(9)[OF resolve_trick_moved[OF 1]] c2 show ?thesis by blast
  next
    case 2
    with c2 show ?thesis by (simp add: played_cards_def)
  qed
qed

lemma played_not_in_hand:
  assumes "distinct (all_cards s)" and "c \<in> set (played_cards s)" and "q \<in> set (players s)"
  shows "c \<notin> set (hand q)"
  using assms by (auto simp: all_cards_def played_cards_def)

text \<open>The example game is reachable: it is played from the full lobby.\<close>

lemma pass_all_reachable:
  "reachable s \<Longrightarrow> pass_all xs s = Inr (rs, s') \<Longrightarrow> list_all is_Ok rs \<Longrightarrow> reachable s'"
proof (induction xs arbitrary: s rs)
  case Nil
  then show ?case by simp
next
  case (Cons x xs)
  from Cons.prems(2) obtain r s1 rs1 where h: "handle_bid s x None = Inr (r, s1)"
    and p: "pass_all xs s1 = Inr (rs1, s')" and rs: "rs = r # rs1"
    by (auto split: sum.splits prod.splits)
  from Cons.prems(3) rs obtain ev where "r = Ok ev" and ok: "list_all is_Ok rs1"
    by (cases r) auto
  with h Cons.prems(1) have "reachable s1" by (blast intro: reachable.bid)
  from Cons.IH[OF this p ok] show ?case .
qed

lemma ex_dealt_started: "start_game ex_full 0 create_deck = Inr (None, ex_dealt)"
  by (simp add: start_game_def ex_full_def ex_lobby_def ex_dealt_def choice_def deal_def Let_def
      upt_small get_player_by_seat_def set_hand_def start_bidding_def next_seat_def mod_Suc
      create_deck_def)

lemma ex_passed_bid:
  "\<exists>rs. pass_all [1, 2, 3, 0] ex_dealt = Inr (rs, ex_passed) \<and> list_all is_Ok rs"
  by (simp add: ex_passed_def ex_dealt_def ex_full_def ex_lobby_def next_seat_def
      handle_bid_def validate_bid_def place_bid_def advance_bidding_def player_has_bid_def
      conclude_bidding_def Let_def MIN_BID_def mod_Suc)

lemma from_id_ex2:
  "from_id ''10_diamonds'' = Inr (Card DIAMONDS TEN)"
  "from_id ''7_hearts'' = Inr (Card HEARTS SEVEN)"
  "from_id ''10_hearts'' = Inr (Card HEARTS TEN)"
  by (simp_all add: from_id_def rsplit1_def Suit_of_def Rank_of_def)

lemma ex_concealed_reachable: "reachable ex_concealed"
proof -
  from ex_full_reachable ex_dealt_started have r1: "reachable ex_dealt"
    by (blast intro: reachable.started)
  from ex_passed_bid r1 have r2: "reachable ex_passed"
    by (blast intro: pass_all_reachable)
  define s3 where "s3 = (set_hand ex_passed 0 (remove1 (Card DIAMONDS TEN)))\<lparr>phase := PLAYING,
     trump_suit := Some DIAMONDS, trump_card := Some (Card DIAMONDS TEN), trick_number := 1,
     lead_seat := Some 1, turn_seat := Some 1\<rparr>"
  have "\<exists>ev. handle_trump_selection ex_passed 0 ''diamonds'' ''10_diamonds'' = Inr (Ok ev, s3)"
    by (simp add: handle_trump_selection_def from_id_ex2 Suit_of_def validate_trump_selection_def
        select_trump_def set_first_player_def next_seat_def get_player_by_seat_def set_hand_def
        Let_def s3_def ex_passed_def ex_dealt_def ex_full_def ex_lobby_def)
  with r2 have r3: "reachable s3" by (blast intro: reachable.trump_selected)
  define s4 where "s4 = (set_hand s3 1 (remove1 (Card HEARTS SEVEN)))\<lparr>
     current_trick := [TrickCard 1 (Card HEARTS SEVEN)], turn_seat := Some 2\<rparr>"
  have "\<exists>ev. handle_play_card s3 1 ''7_hearts'' = Inr (Ok ev, s4)"
    by (simp add: handle_play_card_def from_id_ex2 validate_play_def get_valid_cards_def
        get_calling_suit_def get_player_by_seat_def play_card_def set_hand_def next_seat_def
        dict_get_def Let_def s4_def s3_def ex_passed_def ex_dealt_def ex_full_def ex_lobby_def)
  with r3 have r4: "reachable s4" by (blast intro: reachable.played)
  have "\<exists>ev. handle_play_card s4 2 ''10_hearts'' = Inr (Ok ev, ex_concealed)"
    by (simp add: handle_play_card_def from_id_ex2 validate_play_def get_valid_cards_def
        get_calling_suit_def get_player_by_seat_def play_card_def set_hand_def next_seat_def
        dict_get_def Let_def s4_def s3_def ex_concealed_def ex_passed_def ex_dealt_def
        ex_full_def ex_lobby_def)
  with r4 show ?thesis by (blast intro: reachable.played)
qed

text \<open>In a reachable game the handler carries the accepted play through.\<close>

lemma accepted_play_succeeds:
  assumes r: "reachable s" and ph: "phase s = PLAYING"
    and p: "get_player_by_seat s x = Some p" and c: "c \<in> set (hand p)"
    and ts: "trump_suit s \<noteq> None"
    and h: "handle_play_card s x cid
           = (case play_card s x c of
                Inl e \<Rightarrow> Inl e
              | Inr (result, s1) \<Rightarrow>
                  if truthy (dict_get result ''game_over'') then
                    (case score_game s1 of
                       Inl e \<Rightarrow> Inl e
                     | Inr (scoring, s2) \<Rightarrow> Inr (Ok (dict_update result scoring), s2))
                  else Inr (Ok result, s1))"
  shows "\<exists>ev s'. handle_play_card s x cid = Inr (Ok ev, s')
           \<and> dict_get ev ''card_played'' = PStr (card_id c)
           \<and> dict_get ev ''is_cut''
               = PBool (get_calling_suit s \<noteq> None \<and> Some (suit c) \<noteq> get_calling_suit s
                        \<and> trump_revealed s \<and> Some (suit c) = trump_suit s)
           \<and> (\<forall>q \<in> set (players s'). c \<notin> set (hand q))
           \<and> c \<in> set (played_cards s')"
proof -
  from reachable_inv[OF r] have gi: "game_inv s" .
  from reachable_play_inv[OF r] have pi: "play_inv s" .
  from ph have nw: "phase s \<noteq> WAITING" by simp
  from play_card_total[OF gi pi nw p c] obtain result s1 where
    pc: "play_card s x c = Inr (result, s1)" by blast
  from play_card_moved[OF pc] have m: "moved s s1" .
  from moved_play_inv[OF pi m] have pi1: "play_inv s1" .
  from ts have "trump_suit s1 \<noteq> None" unfolding moved_fields(5)[OF m] .
  with pi1 obtain b a where b: "current_bid s1 = Some b" "amount b = Some a"
    unfolding play_inv_def by blast
  from score_game_total[OF b] obtain scoring s2 where
    sg: "score_game s1 = Inr (scoring, s2)"
    and k: "''card_played'' \<notin> fst ` set scoring" "''is_cut'' \<notin> fst ` set scoring" by blast
  define ev where "ev = (if truthy (dict_get result ''game_over'')
                         then dict_update result scoring else result)"
  define s' where "s' = (if truthy (dict_get result ''game_over'') then s2 else s1)"
  have ok: "handle_play_card s x cid = Inr (Ok ev, s')"
    unfolding h pc ev_def s'_def using sg by simp
  have "dict_get ev ''card_played'' = dict_get result ''card_played''"
    "dict_get ev ''is_cut'' = dict_get result ''is_cut''"
    unfolding ev_def dict_get_def using k by (simp_all add: dict_update_other)
  with play_card_played[OF pc] play_card_is_cut[OF pc]
  have keys: "dict_get ev ''card_played'' = PStr (card_id c)"
    "dict_get ev ''is_cut''
       = PBool (get_calling_suit s \<noteq> None \<and> Some (suit c) \<noteq> get_calling_suit s
                \<and> trump_revealed s \<and> Some (suit c) = trump_suit s)"
    by simp_all
  from score_game_frame[OF sg] obtain sc gp where
    s2: "s2 = s1\<lparr>phase := SCORING, scores := sc, games_played := gp\<rparr>" by blast
  have "played_cards s' = played_cards s1"
    unfolding s'_def s2 by (simp add: played_cards_def)
  with play_card_in_played_cards[OF pc] have pl: "c \<in> set (played_cards s')" by simp
  from ok r have r': "reachable s'" by (blast intro: reachable.played)
  have "phase s' = PLAYING \<or> phase s' = SCORING"
    unfolding s'_def s2 using moved_fields(2)[OF m] ph by simp
  then have "phase s' \<noteq> WAITING" by auto
  with reachable_inv[OF r'] have "mset (all_cards s') = mset create_deck"
    by (simp add: game_inv_def)
  then have "distinct (all_cards s')"
    using distinct_create_deck by (metis mset_eq_imp_distinct_iff)
  from played_not_in_hand[OF this pl] have "\<forall>q \<in> set (players s'). c \<notin> set (hand q)"
    by blast
  with ok keys pl show ?thesis by blast
qed

text \<open>
  C1, as the engine has it. When it is the seat's turn in the playing phase, the seat is void
  in the calling suit, trump is concealed and the seat submits a card of the trump suit from
  its hand, \<open>validate_play\<close> rejects the play if it is called with \<open>wants_to_cut\<close> true, but
  \<open>handle_play_card\<close> passes \<open>wants_to_cut\<close> only when trump is revealed: so
  \<open>validate_play\<close> accepts, the handler goes on to \<open>play_card\<close> and returns no error, and
  the play is recorded with \<open>is_cut\<close> false. In every reachable game the play succeeds: the
  result names the card and has \<open>is_cut\<close> false, and in the game that results the card is in
  no hand and is among the cards played (in the current trick or in a pile of tricks won).
\<close>

theorem concealed_trump_play_is_accepted:
  assumes "phase s = PLAYING"
    and "turn_seat s = Some x"
    and "get_player_by_seat s x = Some p"
    and "c \<in> set (hand p)"
    and "get_calling_suit s = Some cs"
    and "\<forall>c' \<in> set (hand p). suit c' \<noteq> cs"
    and "trump_suit s = Some (suit c)"
    and "\<not> trump_revealed s"
  shows "validate_play s x c True
           = Inr (Some (if Some x = trumper_seat s then TrumperMustReveal
                        else TrumpMustBeRevealed))
       \<and> validate_play s x c False = Inr None
       \<and> handle_play_card s x (card_id c)
           = (case play_card s x c of
                Inl e \<Rightarrow> Inl e
              | Inr (result, s1) \<Rightarrow>
                  if truthy (dict_get result ''game_over'') then
                    (case score_game s1 of
                       Inl e \<Rightarrow> Inl e
                     | Inr (scoring, s2) \<Rightarrow> Inr (Ok (dict_update result scoring), s2))
                  else Inr (Ok result, s1))
       \<and> (\<forall>e s'. handle_play_card s x (card_id c) \<noteq> Inr (Err e, s'))
       \<and> (\<forall>ev s'. play_card s x c = Inr (ev, s') \<longrightarrow> dict_get ev ''is_cut'' = PBool False)
       \<and> (reachable s \<longrightarrow>
            (\<exists>ev s'. handle_play_card s x (card_id c) = Inr (Ok ev, s')
               \<and> dict_get ev ''card_played'' = PStr (card_id c)
               \<and> dict_get ev ''is_cut'' = PBool False
               \<and> (\<forall>q \<in> set (players s'). c \<notin> set (hand q))
               \<and> c \<in> set (played_cards s')))"
proof -
  have valid: "get_valid_cards s x = Inr (hand p)"
    using assms(3,4,5,6) by (auto simp: get_valid_cards_def Let_def filter_empty_conv)
  have ne: "suit c \<noteq> cs" using assms(4,6) by blast
  have v1: "validate_play s x c True
           = Inr (Some (if Some x = trumper_seat s then TrumperMustReveal
                        else TrumpMustBeRevealed))"
    using assms valid ne by (simp add: validate_play_def Let_def)
  have v2: "validate_play s x c False = Inr None"
    using assms valid ne by (simp add: validate_play_def Let_def)
  have h: "handle_play_card s x (card_id c)
           = (case play_card s x c of
                Inl e \<Rightarrow> Inl e
              | Inr (result, s1) \<Rightarrow>
                  if truthy (dict_get result ''game_over'') then
                    (case score_game s1 of
                       Inl e \<Rightarrow> Inl e
                     | Inr (scoring, s2) \<Rightarrow> Inr (Ok (dict_update result scoring), s2))
                  else Inr (Ok result, s1))"
    using assms(8) v2 by (simp add: handle_play_card_def from_id_card_id Let_def)
  have noerr: "\<forall>e s'. handle_play_card s x (card_id c) \<noteq> Inr (Err e, s')"
    unfolding h by (auto split: sum.splits prod.splits)
  have cut: "\<forall>ev s'. play_card s x c = Inr (ev, s') \<longrightarrow> dict_get ev ''is_cut'' = PBool False"
    using assms(8) by (auto dest!: play_card_is_cut)
  have ts: "trump_suit s \<noteq> None" using assms(7) by simp
  have succ: "reachable s \<longrightarrow>
            (\<exists>ev s'. handle_play_card s x (card_id c) = Inr (Ok ev, s')
               \<and> dict_get ev ''card_played'' = PStr (card_id c)
               \<and> dict_get ev ''is_cut'' = PBool False
               \<and> (\<forall>q \<in> set (players s'). c \<notin> set (hand q))
               \<and> c \<in> set (played_cards s'))"
  proof
    assume r: "reachable s"
    from accepted_play_succeeds[OF r assms(1,3,4) ts h] assms(8)
    show "\<exists>ev s'. handle_play_card s x (card_id c) = Inr (Ok ev, s')
               \<and> dict_get ev ''card_played'' = PStr (card_id c)
               \<and> dict_get ev ''is_cut'' = PBool False
               \<and> (\<forall>q \<in> set (players s'). c \<notin> set (hand q))
               \<and> c \<in> set (played_cards s')"
      by simp
  qed
  from v1 v2 h noerr cut succ show ?thesis by blast
qed

theorem concealed_trump_play_is_accepted_witness:
  "reachable ex_concealed \<and> phase ex_concealed = PLAYING \<and> turn_seat ex_concealed = Some 3
   \<and> hand_of ex_concealed 3
       = Some [Card DIAMONDS SEVEN, Card DIAMONDS EIGHT, Card DIAMONDS QUEEN,
               Card DIAMONDS KING, Card SPADES SEVEN, Card SPADES EIGHT, Card SPADES QUEEN,
               Card SPADES KING]
   \<and> get_calling_suit ex_concealed = Some HEARTS \<and> trump_suit ex_concealed = Some DIAMONDS
   \<and> \<not> trump_revealed ex_concealed
   \<and> validate_play ex_concealed 3 (Card DIAMONDS SEVEN) True = Inr (Some TrumpMustBeRevealed)
   \<and> validate_play ex_concealed 3 (Card DIAMONDS SEVEN) False = Inr None
   \<and> (\<exists>ev s'. handle_play_card ex_concealed 3 ''7_diamonds'' = Inr (Ok ev, s')
         \<and> dict_get ev ''card_played'' = PStr ''7_diamonds''
         \<and> dict_get ev ''is_cut'' = PBool False
         \<and> list_all (\<lambda>q. Card DIAMONDS SEVEN \<notin> set (hand q)) (players s')
         \<and> Card DIAMONDS SEVEN \<in> set (played_cards s'))"
proof -
  let ?h = "[Card DIAMONDS SEVEN, Card DIAMONDS EIGHT, Card DIAMONDS QUEEN,
             Card DIAMONDS KING, Card SPADES SEVEN, Card SPADES EIGHT, Card SPADES QUEEN,
             Card SPADES KING]"
  let ?p = "\<lparr>player_id = ''u3'', name = ''Dave'', seat = 3, connection_id = None, hand = ?h\<rparr>"
  have h: "phase ex_concealed = PLAYING" "turn_seat ex_concealed = Some 3"
    "get_player_by_seat ex_concealed 3 = Some ?p"
    "Card DIAMONDS SEVEN \<in> set (hand ?p)"
    "get_calling_suit ex_concealed = Some HEARTS"
    "\<forall>c' \<in> set (hand ?p). suit c' \<noteq> HEARTS"
    "trump_suit ex_concealed = Some (suit (Card DIAMONDS SEVEN))"
    "\<not> trump_revealed ex_concealed"
    by (simp_all add: ex_concealed_def ex_passed_def ex_dealt_def ex_full_def ex_lobby_def
        get_player_by_seat_def get_calling_suit_def)
  have t: "(if Some 3 = trumper_seat ex_concealed then TrumperMustReveal else TrumpMustBeRevealed)
             = TrumpMustBeRevealed"
    by (simp add: ex_concealed_def ex_passed_def ex_dealt_def ex_full_def ex_lobby_def)
  have i: "card_id (Card DIAMONDS SEVEN) = ''7_diamonds''" by (simp add: card_id_def)
  have ho: "hand_of ex_concealed 3 = Some ?h" using h(3) by (simp add: hand_of_def)
  have su: "trump_suit ex_concealed = Some DIAMONDS" using h(7) by simp
  note r = concealed_trump_play_is_accepted[OF h, unfolded t i list_all_iff[symmetric]]
  from r ex_concealed_reachable h(1,2,5,8) ho su show ?thesis by blast
qed

text \<open>
  C1 as stated fails: in the example game seat 2, void in spades, plays the jack of hearts
  while hearts is the concealed trump; the play is accepted, the card leaves the hand and
  joins the trick.
\<close>

theorem concealed_cut_rejected_counterexample:
  "phase ex_playing = PLAYING \<and> turn_seat ex_playing = Some 2
   \<and> hand_of ex_playing 2 = Some [Card HEARTS JACK, Card CLUBS ACE]
   \<and> get_calling_suit ex_playing = Some SPADES \<and> trump_suit ex_playing = Some HEARTS
   \<and> \<not> trump_revealed ex_playing
   \<and> (\<exists>ev s'. handle_play_card ex_playing 2 ''J_hearts'' = Inr (Ok ev, s')
   \<and> hand_of s' 2 = Some [Card CLUBS ACE]
   \<and> current_trick s' = [TrickCard 1 (Card SPADES JACK), TrickCard 2 (Card HEARTS JACK)])"
  by (simp add: handle_play_card_def from_id_ex validate_play_def get_valid_cards_def
      get_calling_suit_def get_player_by_seat_def play_card_def set_hand_def next_seat_def
      dict_get_def hand_of_def Let_def ex_playing_def ex_player_def)

section \<open>Spoilt trump\<close>

lemma count_suit_concat: "count_suit t (concat xss) = sum_list (map (count_suit t) xss)"
  by (induction xss) (simp_all add: count_suit_def)

lemma piles_filter_subset:
  "mset (concat (map snd (filter P tw))) \<subseteq># mset (concat (map snd tw))"
  by (induction tw) (auto intro: subset_mset.add_increasing)

lemma team_hands_subset:
  fixes ps :: "Player list"
  shows "distinct xs \<Longrightarrow>
     mset (concat (map (\<lambda>x. case find (\<lambda>p. seat p = x) ps of None \<Rightarrow> [] | Some p \<Rightarrow> hand p) xs))
       \<subseteq># mset (concat (map hand ps))"
proof -
  define g :: "Player list \<Rightarrow> int \<Rightarrow> Card list"
    where "g = (\<lambda>qs x. case find (\<lambda>p. seat p = x) qs of None \<Rightarrow> [] | Some p \<Rightarrow> hand p)"
  have g_other: "g (p # qs) x = g qs x" if "seat p \<noteq> x" for p qs x
    using that by (simp add: g_def)
  have g_same: "g (p # qs) (seat p) = hand p" for p qs
    by (simp add: g_def)
  have "distinct xs \<Longrightarrow> mset (concat (map (g ps) xs)) \<subseteq># mset (concat (map hand ps))"
  proof (induction ps arbitrary: xs)
    case Nil
    have "concat (map (g []) xs) = []" by (induction xs) (simp_all add: g_def)
    then show ?case by simp
  next
    case (Cons p ps)
    show ?case
    proof (cases "seat p \<in> set xs")
      case False
      then have e: "map (g (p # ps)) xs = map (g ps) xs"
        by (intro map_cong refl g_other) auto
      show ?thesis unfolding e using Cons.IH[OF Cons.prems]
        by (simp add: subset_mset.add_increasing)
    next
      case True
      then obtain ys zs where xs: "xs = ys @ seat p # zs" by (auto dest: split_list)
      with Cons.prems have nin: "seat p \<notin> set ys" "seat p \<notin> set zs"
        and d: "distinct (ys @ zs)"
        by auto
      from nin have e: "map (g (p # ps)) ys = map (g ps) ys" "map (g (p # ps)) zs = map (g ps) zs"
        by (auto intro!: map_cong g_other)
      have "mset (concat (map (g (p # ps)) xs))
                   = mset (hand p) + mset (concat (map (g ps) (ys @ zs)))"
        unfolding xs map_append list.map e g_same by simp
      with Cons.IH[OF d] show ?thesis by simp
    qed
  qed
  then show "distinct xs \<Longrightarrow> ?thesis" unfolding g_def .
qed

lemma team_cards_subset: "mset (trumper_team_cards s) \<subseteq># mset (all_cards s)"
proof -
  let ?team = "remdups (get_trumper_team_seats s)"
  have a: "mset (concat (map snd (filter (\<lambda>(x, cards). x \<in> set ?team) (tricks_won s))))
             \<subseteq># mset (concat (map snd (tricks_won s)))"
    by (rule piles_filter_subset)
  have b: "mset (concat (map (\<lambda>x. case get_player_by_seat s x of None \<Rightarrow> [] | Some p \<Rightarrow> hand p) ?team))
             \<subseteq># mset (concat (map hand (players s)))"
    unfolding get_player_by_seat_def by (rule team_hands_subset) simp
  have "mset (trumper_team_cards s)
          = mset (concat (map (\<lambda>x. case get_player_by_seat s x of None \<Rightarrow> [] | Some p \<Rightarrow> hand p) ?team))
            + (mset (concat (map snd (filter (\<lambda>(x, cards). x \<in> set ?team) (tricks_won s))))
               + mset (trump_slot (trump_card s) (trump_revealed s)))"
    by (simp add: trumper_team_cards_def Let_def)
  also have "\<dots> \<subseteq># mset (concat (map hand (players s)))
            + (mset (concat (map snd (tricks_won s)))
               + mset (trump_slot (trump_card s) (trump_revealed s)))"
    using a b by (intro subset_mset.add_mono) simp_all
  also have "\<dots> \<subseteq># mset (all_cards s)"
    by (simp add: all_cards_def)
  finally show ?thesis .
qed

lemma distinct_mset_subset:
  assumes "mset xs \<subseteq># mset ys" and "distinct ys"
  shows "distinct xs"
proof -
  have "count (mset xs) a = (if a \<in> set xs then 1 else 0)" for a
  proof -
    have le: "count (mset xs) a \<le> count (mset ys) a"
      using assms(1) by (rule mset_subset_eq_count)
    have "count (mset ys) a \<le> 1"
      using assms(2) by (simp add: distinct_count_atmost_1)
    then have le1: "count (mset xs) a \<le> 1" using le by simp
    show ?thesis
    proof (cases "a \<in> set xs")
      case True
      then have "count (mset xs) a \<noteq> 0" by (simp add: count_mset_0_iff)
      with le1 have "count (mset xs) a = 1" by arith
      with True show ?thesis by simp
    next
      case False
      then show ?thesis by (simp add: count_mset_0_iff)
    qed
  qed
  then show ?thesis by (simp add: distinct_count_atmost_1)
qed

lemma distinct_team_cards: "distinct (all_cards s) \<Longrightarrow> distinct (trumper_team_cards s)"
  using team_cards_subset by (rule distinct_mset_subset)


lemma UNIV_Rank: "(UNIV :: Rank set) = {SEVEN, EIGHT, QUEEN, KING, TEN, ACE, NINE, JACK}"
proof -
  have "r \<in> {SEVEN, EIGHT, QUEEN, KING, TEN, ACE, NINE, JACK}" for r by (cases r) simp_all
  then show ?thesis by blast
qed

lemma card_suit_cards: "card (range (Card t)) = 8"
proof -
  have "inj (Card t)" by (simp add: inj_def)
  then have "card (range (Card t)) = card (UNIV :: Rank set)" by (rule card_image)
  also have "\<dots> = 8" unfolding UNIV_Rank by simp
  finally show ?thesis .
qed

lemma count_all_of_suit:
  assumes "distinct cs" and "\<forall>r. Card t r \<in> set cs"
  shows "count_suit t cs = 8"
proof -
  have "set (filter (\<lambda>c. suit c = t) cs) = range (Card t)"
  proof (intro set_eqI iffI)
    fix c assume "c \<in> set (filter (\<lambda>c. suit c = t) cs)"
    then have "suit c = t" by simp
    then have "c = Card t (rank c)" by (cases c) simp
    then show "c \<in> range (Card t)" by blast
  next
    fix c assume "c \<in> range (Card t)"
    then obtain r where "c = Card t r" by blast
    with assms(2) show "c \<in> set (filter (\<lambda>c. suit c = t) cs)" by simp
  qed
  moreover have "distinct (filter (\<lambda>c. suit c = t) cs)" using assms(1) by simp
  ultimately have "length (filter (\<lambda>c. suit c = t) cs) = card (range (Card t))"
    by (metis distinct_card)
  then show ?thesis by (simp add: count_suit_def card_suit_cards)
qed

lemma count_suit_append [simp]: "count_suit t (xs @ ys) = count_suit t xs + count_suit t ys"
  by (simp add: count_suit_def)

lemma sum_count_piles:
  "sum_list (map (\<lambda>(x, cards). count_suit t cards) tw) = count_suit t (concat (map snd tw))"
  by (induction tw) (auto simp: count_suit_def)

lemma sum_count_hands:
  "sum_list (map (\<lambda>x. case f x of None \<Rightarrow> 0 | Some p \<Rightarrow> count_suit t (hand p)) xs)
     = count_suit t (concat (map (\<lambda>x. case f x of None \<Rightarrow> [] | Some p \<Rightarrow> hand p) xs))"
  by (induction xs) (auto simp: count_suit_def split: option.splits)

lemma check_spoilt_count:
  assumes "trump_suit s = Some t"
    and "\<forall>c. trump_card s = Some c \<and> \<not> trump_revealed s \<longrightarrow> trump_suit s = Some (suit c)"
  shows "check_spoilt_trump s \<longleftrightarrow> count_suit t (trumper_team_cards s) = 8"
proof -
  have slot: "count_suit t (trump_slot (trump_card s) (trump_revealed s))
                = (if trump_card s \<noteq> None \<and> \<not> trump_revealed s then 1 else 0)"
    using assms by (auto simp: trump_slot_def count_suit_def split: option.splits)
  show ?thesis
    unfolding check_spoilt_trump_def trumper_team_cards_def Let_def
    by (simp add: assms(1) sum_count_piles sum_count_hands slot)
qed

lemma team_seats_phase:
  "get_trumper_team_seats (s\<lparr>phase := ph\<rparr>) = get_trumper_team_seats s"
  by (cases "trumper_seat s") (simp_all add: get_trumper_team_seats_def get_team_def)

lemma player_by_seat_phase:
  "get_player_by_seat (s\<lparr>phase := ph\<rparr>) x = get_player_by_seat s x"
  by (simp add: get_player_by_seat_def)

lemma check_spoilt_phase: "check_spoilt_trump (s\<lparr>phase := ph\<rparr>) = check_spoilt_trump s"
  by (cases "trump_suit s")
    (simp_all add: check_spoilt_trump_def Let_def team_seats_phase player_by_seat_phase)

text \<open>The two side conditions of the next theorem hold of every reachable game that has left
  \<open>WAITING\<close>.\<close>

lemma reachable_cards_distinct:
  assumes "reachable s" and "phase s \<noteq> WAITING"
  shows "distinct (all_cards s)"
    and "\<forall>c. trump_card s = Some c \<and> \<not> trump_revealed s \<longrightarrow> trump_suit s = Some (suit c)"
proof -
  from reachable_inv[OF assms(1)] assms(2)
  have m: "mset (all_cards s) = mset create_deck" by (simp add: game_inv_def)
  then show "distinct (all_cards s)"
    using distinct_create_deck mset_eq_imp_distinct_iff by blast
  from reachable_inv[OF assms(1)]
  show "\<forall>c. trump_card s = Some c \<and> \<not> trump_revealed s \<longrightarrow> trump_suit s = Some (suit c)"
    by (simp add: game_inv_def)
qed

text \<open>
  C3. In a game whose cards are each in one place only and whose concealed trump card is of
  the trump suit (every reachable game is such a game), when all eight cards of the trump suit
  are in the possession of the trumper's team (its piles of tricks won, the concealed trump
  card, its hands), \<open>check_spoilt_trump\<close> detects the spoilt game and scoring returns the
  spoilt result without touching any seat's cumulative score or \<open>games_played\<close>.
\<close>

theorem spoilt_awards_nothing:
  assumes "distinct (all_cards s)"
    and "\<forall>c. trump_card s = Some c \<and> \<not> trump_revealed s \<longrightarrow> trump_suit s = Some (suit c)"
    and "trump_suit s = Some t"
    and "\<forall>r. Card t r \<in> set (trumper_team_cards s)"
  shows "check_spoilt_trump s
     \<and> score_game s
         = Inr ([(''spoilt'', PBool True), (''trumper_points'', PInt 0),
                 (''opposing_points'', PInt 0), (''scores'', scores_val (scores s))],
                s\<lparr>phase := SCORING\<rparr>)
     \<and> (\<forall>ev s'. score_game s = Inr (ev, s') \<longrightarrow>
            scores s' = scores s \<and> games_played s' = games_played s)"
proof -
  have "distinct (trumper_team_cards s)" using assms(1) by (rule distinct_team_cards)
  then have "count_suit t (trumper_team_cards s) = 8" using assms(4) by (rule count_all_of_suit)
  then have sp: "check_spoilt_trump s" using check_spoilt_count[OF assms(3,2)] by simp
  then have sc: "score_game s
         = Inr ([(''spoilt'', PBool True), (''trumper_points'', PInt 0),
                 (''opposing_points'', PInt 0), (''scores'', scores_val (scores s))],
                s\<lparr>phase := SCORING\<rparr>)"
    by (simp add: score_game_def Let_def check_spoilt_phase)
  from sp sc show ?thesis by simp
qed

lemma ex_spoilt_cards:
  "trumper_team_cards ex_spoilt
     = [Card HEARTS SEVEN, Card HEARTS EIGHT, Card HEARTS QUEEN, Card HEARTS KING,
        Card HEARTS TEN, Card HEARTS ACE, Card HEARTS NINE, Card HEARTS JACK]"
  "all_cards ex_spoilt
     = [Card HEARTS SEVEN, Card HEARTS EIGHT, Card HEARTS QUEEN, Card HEARTS KING,
        Card HEARTS TEN, Card HEARTS ACE, Card HEARTS NINE, Card HEARTS JACK]"
  by (simp_all add: trumper_team_cards_def all_cards_def get_trumper_team_seats_def get_team_def
      get_player_by_seat_def trump_slot_def ex_spoilt_def ex_playing_def ex_player_def)

theorem spoilt_awards_nothing_witness:
  "distinct (all_cards ex_spoilt) \<and> trump_suit ex_spoilt = Some HEARTS
   \<and> check_spoilt_trump ex_spoilt
   \<and> (\<exists>ev. score_game ex_spoilt = Inr (ev, ex_spoilt\<lparr>phase := SCORING\<rparr>))
   \<and> scores (ex_spoilt\<lparr>phase := SCORING\<rparr>) = [(0, 0), (1, 0), (2, 0), (3, 0)]"
proof -
  have h1: "distinct (all_cards ex_spoilt)" unfolding ex_spoilt_cards by simp
  have h2: "\<forall>c. trump_card ex_spoilt = Some c \<and> \<not> trump_revealed ex_spoilt
              \<longrightarrow> trump_suit ex_spoilt = Some (suit c)"
    by (simp add: ex_spoilt_def ex_playing_def)
  have h3: "trump_suit ex_spoilt = Some HEARTS" by (simp add: ex_spoilt_def ex_playing_def)
  have h4: "\<forall>r. Card HEARTS r \<in> set (trumper_team_cards ex_spoilt)"
  proof
    fix r show "Card HEARTS r \<in> set (trumper_team_cards ex_spoilt)"
      unfolding ex_spoilt_cards by (cases r) simp_all
  qed
  have sc: "scores (ex_spoilt\<lparr>phase := SCORING\<rparr>) = [(0, 0), (1, 0), (2, 0), (3, 0)]"
    by (simp add: ex_spoilt_def ex_playing_def)
  from spoilt_awards_nothing[OF h1 h2 h3 h4] h1 h3 sc show ?thesis by blast
qed

section \<open>The snapshot codec round trip\<close>

declare digits_of.simps [simp del]

lemma and_then_Inr [simp]: "and_then (Inr x) f = f x"
  by (simp add: and_then_def)

lemma and_then_Inl [simp]: "and_then (Inl e) f = Inl e"
  by (simp add: and_then_def)

lemma less_10_cases:
  assumes "(d::nat) < 10"
  shows "d = 0 \<or> d = 1 \<or> d = 2 \<or> d = 3 \<or> d = 4 \<or> d = 5 \<or> d = 6 \<or> d = 7 \<or> d = 8 \<or> d = 9"
  using assms by arith

lemma digit_val_char: "d < 10 \<Longrightarrow> digit_val (digit_char d) = Some d"
  by (drule less_10_cases) (auto simp: digit_val_def digit_char_def)

lemma digit_char_not_minus: "d < 10 \<Longrightarrow> digit_char d \<noteq> CHR ''-''"
  by (drule less_10_cases) (auto simp: digit_char_def)

lemma parse_digits_append:
  "parse_digits acc (xs @ ys)
     = (case parse_digits acc xs of None \<Rightarrow> None | Some a \<Rightarrow> parse_digits a ys)"
  by (induction xs arbitrary: acc) (auto split: option.splits)

lemma parse_digits_of: "parse_digits 0 (digits_of n) = Some n"
proof (induction n rule: digits_of.induct)
  case (1 n)
  show ?case
  proof (cases "n < 10")
    case True
    then show ?thesis by (simp add: digits_of.simps[of n] digit_val_char)
  next
    case False
    with 1 have ih: "parse_digits 0 (digits_of (n div 10)) = Some (n div 10)" by simp
    have "n mod 10 < 10" by simp
    then have dv: "digit_val (digit_char (n mod 10)) = Some (n mod 10)" by (rule digit_val_char)
    from False show ?thesis
      by (simp add: digits_of.simps[of n] parse_digits_append ih dv)
  qed
qed

lemma digits_of_head:
  "\<exists>c cs. digits_of n = c # cs \<and> c \<noteq> CHR ''-''"
proof (induction n rule: digits_of.induct)
  case (1 n)
  show ?case
  proof (cases "n < 10")
    case True
    then show ?thesis by (simp add: digits_of.simps[of n] digit_char_not_minus)
  next
    case False
    with 1 obtain c cs where "digits_of (n div 10) = c # cs" "c \<noteq> CHR ''-''" by auto
    with False show ?thesis by (simp add: digits_of.simps[of n])
  qed
qed

lemma int_of_str_str_int: "int_of_str (str_int i) = Inr i"
proof (cases "i < 0")
  case True
  obtain c cs where "digits_of (nat (- i)) = c # cs" using digits_of_head by blast
  then have ne: "digits_of (nat (- i)) \<noteq> []" by simp
  from True ne show ?thesis
    by (simp add: int_of_str_def str_int_def parse_digits_of)
next
  case False
  obtain c cs where d: "digits_of (nat i) = c # cs" "c \<noteq> CHR ''-''" using digits_of_head by blast
  have "parse_digits 0 (c # cs) = Some (nat i)" using parse_digits_of[of "nat i"] d by simp
  with False d show ?thesis
    by (simp add: int_of_str_def str_int_def)
qed

lemma str_int_inj: "str_int a = str_int b \<Longrightarrow> a = b"
  by (metis int_of_str_str_int sum.inject(2))

lemma map_exn_map:
  "(\<And>x. x \<in> set xs \<Longrightarrow> f (g x) = Inr x) \<Longrightarrow> map_exn f (map g xs) = Inr xs"
  by (induction xs) simp_all

lemma py_cards_ids [simp]: "py_cards (card_ids cs) = Inr cs"
  by (simp add: py_cards_def card_ids_def map_exn_map[where g = "\<lambda>c. PStr (card_id c)"]
      from_id_card_id)

lemma deserialize_player_serialize [simp]:
  fixes p :: Player
  shows "deserialize_player (serialize_player p) = Inr p"
  by (cases "connection_id p") (simp_all add: deserialize_player_def serialize_player_def opt_val_def)

lemma deserialize_bid_to_dict [simp]: "deserialize_bid (bid_to_dict b) = Inr b"
  by (cases b; cases "amount b") (simp_all add: deserialize_bid_def bid_to_dict_def opt_val_def)

lemma deserialize_trick_card_to_dict [simp]: "deserialize_trick_card (tc_to_dict tc) = Inr tc"
  by (cases tc) (simp_all add: deserialize_trick_card_def tc_to_dict_def from_id_card_id)

lemma update_fresh: "k \<notin> fst ` set al \<Longrightarrow> AList.update k v al = al @ [(k, v)]"
  by (induction al) auto

lemma py_dict_distinct_gen:
  "distinct (map fst (acc @ kvs)) \<Longrightarrow>
     foldl (\<lambda>d kv. AList.update (fst kv) (snd kv) d) acc kvs = acc @ kvs"
proof (induction kvs arbitrary: acc)
  case Nil
  then show ?case by simp
next
  case (Cons kv kvs)
  from Cons.prems have fresh: "fst kv \<notin> fst ` set acc" by auto
  from Cons.prems have d: "distinct (map fst ((acc @ [kv]) @ kvs))" by simp
  have "AList.update (fst kv) (snd kv) acc = acc @ [kv]"
    using update_fresh[OF fresh, of "snd kv"] by simp
  with Cons.IH[OF d] show ?case by simp
qed

lemma py_dict_distinct: "distinct (map fst kvs) \<Longrightarrow> py_dict kvs = kvs"
  unfolding py_dict_def using py_dict_distinct_gen[of "[]" kvs] by simp

lemma distinct_str_keys:
  assumes "distinct (map fst kvs)"
  shows "distinct (map fst (map (\<lambda>kv. (PStr (str_int (fst kv)), h (snd kv))) kvs))"
proof -
  have e: "map fst (map (\<lambda>kv. (PStr (str_int (fst kv)), h (snd kv))) kvs)
          = map (\<lambda>k. PStr (str_int k)) (map fst kvs)" by simp
  have i: "inj_on (\<lambda>k. PStr (str_int k)) (set (map fst kvs))"
    by (auto simp: inj_on_def dest: str_int_inj)
  have "distinct (map (\<lambda>k. PStr (str_int k)) (map fst kvs))"
    using assms i by (subst distinct_map) blast
  then show ?thesis unfolding e .
qed

lemma deserialize_tricks_won_roundtrip:
  assumes "distinct (map fst tw)"
  shows "deserialize_tricks_won
           (PDict (py_dict (map (\<lambda>(x, cards). (PStr (str_int x), card_ids cards)) tw))) = Inr tw"
proof -
  have e: "(\<lambda>(x, cards). (PStr (str_int x), card_ids cards))
             = (\<lambda>kv. (PStr (str_int (fst kv)), card_ids (snd kv)))" by (simp add: fun_eq_iff)
  have d: "py_dict (map (\<lambda>kv. (PStr (str_int (fst kv)), card_ids (snd kv))) tw)
             = map (\<lambda>kv. (PStr (str_int (fst kv)), card_ids (snd kv))) tw"
    by (rule py_dict_distinct) (rule distinct_str_keys[OF assms])
  have m: "map_exn (\<lambda>kv. and_then (py_int (fst kv)) (\<lambda>k. and_then (py_cards (snd kv)) (\<lambda>cs. Inr (k, cs))))
             (map (\<lambda>kv. (PStr (str_int (fst kv)), card_ids (snd kv))) tw) = Inr tw"
    by (rule map_exn_map) (simp add: int_of_str_str_int)
  show ?thesis
    unfolding e d deserialize_tricks_won_def by (simp add: m py_dict_distinct[OF assms])
qed

lemma deserialize_scores_roundtrip:
  assumes "distinct (map fst sc)"
  shows "deserialize_scores
           (PDict (py_dict (map (\<lambda>(k, v). (PStr (str_int k), PInt v)) sc))) = Inr sc"
proof -
  have e: "(\<lambda>(k, v). (PStr (str_int k), PInt v))
             = (\<lambda>kv. (PStr (str_int (fst kv)), PInt (snd kv)))" by (simp add: fun_eq_iff)
  have d: "py_dict (map (\<lambda>kv. (PStr (str_int (fst kv)), PInt (snd kv))) sc)
             = map (\<lambda>kv. (PStr (str_int (fst kv)), PInt (snd kv))) sc"
    by (rule py_dict_distinct) (rule distinct_str_keys[OF assms])
  have m: "map_exn (\<lambda>kv. and_then (py_int (fst kv)) (\<lambda>k. and_then (py_int (snd kv)) (\<lambda>n. Inr (k, n))))
             (map (\<lambda>kv. (PStr (str_int (fst kv)), PInt (snd kv))) sc) = Inr sc"
    by (rule map_exn_map) (simp add: int_of_str_str_int)
  show ?thesis
    unfolding e d deserialize_scores_def by (simp add: m py_dict_distinct[OF assms])
qed

lemma serialized_getitem:
  "py_getitem (serialize_game_state g) ''game_code'' = Inr (PStr (game_code g))"
  "py_getitem (serialize_game_state g) ''mode'' = Inr (PInt (mode g))"
  "py_getitem (serialize_game_state g) ''phase'' = Inr (PStr (phase_value (phase g)))"
  "py_getitem (serialize_game_state g) ''dealer_seat'' = Inr (PInt (dealer_seat g))"
  by (simp_all add: serialize_game_state_def)

lemma serialized_get:
  "py_get (serialize_game_state g) ''players'' d3 = Inr (PList (map serialize_player (players g)))"
  "py_get (serialize_game_state g) ''deck'' d5 = Inr (card_ids (deck g))"
  "py_get (serialize_game_state g) ''center_pile'' d6 = Inr (card_ids (center_pile g))"
  "py_get (serialize_game_state g) ''bids'' d7 = Inr (PList (map bid_to_dict (bids g)))"
  "py_get (serialize_game_state g) ''current_bid'' d8 = Inr (opt_val bid_to_dict (current_bid g))"
  "py_get (serialize_game_state g) ''bid_turn_seat'' d9 = Inr (opt_val PInt (bid_turn_seat g))"
  "py_get (serialize_game_state g) ''trumper_seat'' d10 = Inr (opt_val PInt (trumper_seat g))"
  "py_get (serialize_game_state g) ''trump_suit'' d11 = Inr (opt_val (\<lambda>t. PStr (suit_value t)) (trump_suit g))"
  "py_get (serialize_game_state g) ''trump_card'' d12 = Inr (opt_val (\<lambda>c. PStr (card_id c)) (trump_card g))"
  "py_get (serialize_game_state g) ''trump_revealed'' d13 = Inr (PBool (trump_revealed g))"
  "py_get (serialize_game_state g) ''exchange_done'' d14 = Inr (PBool (exchange_done g))"
  "py_get (serialize_game_state g) ''current_trick'' d15 = Inr (PList (map tc_to_dict (current_trick g)))"
  "py_get (serialize_game_state g) ''tricks_won'' d16 = Inr (PDict (py_dict (map (\<lambda>(x, cards). (PStr (str_int x), card_ids cards)) (tricks_won g))))"
  "py_get (serialize_game_state g) ''turn_seat'' d17 = Inr (opt_val PInt (turn_seat g))"
  "py_get (serialize_game_state g) ''turn_deadline'' d18 = Inr (opt_val PStr (turn_deadline g))"
  "py_get (serialize_game_state g) ''trick_number'' d19 = Inr (PInt (trick_number g))"
  "py_get (serialize_game_state g) ''lead_seat'' d20 = Inr (opt_val PInt (lead_seat g))"
  "py_get (serialize_game_state g) ''scores'' d21 = Inr (PDict (py_dict (map (\<lambda>(k, v). (PStr (str_int k), PInt v)) (scores g))))"
  "py_get (serialize_game_state g) ''games_played'' d22 = Inr (PInt (games_played g))"
  "py_get (serialize_game_state g) ''created_at'' d23 = Inr (opt_val PStr (created_at g))"
  by (simp_all add: serialize_game_state_def)

lemma py_opt_int_val [simp]: "py_opt_int (opt_val PInt x) = Inr x"
  by (cases x) (simp_all add: py_opt_int_def opt_val_def)

lemma py_opt_str_val [simp]: "py_opt_str (opt_val PStr x) = Inr x"
  by (cases x) (simp_all add: opt_val_def)

lemma Suit_of_value: "Suit_of (suit_value t) = Inr t"
  by (cases t) (simp_all add: Suit_of_def)

lemma GamePhase_of_value: "GamePhase_of (phase_value p) = Inr p"
  by (cases p) (simp_all add: GamePhase_of_def)

lemma suit_value_ne: "suit_value t \<noteq> []"
  by (cases t) simp_all

lemma card_id_ne: "card_id c \<noteq> []"
  by (simp add: card_id_def)

lemma if_truthy_suit [simp]:
  "if_truthy py_suit (opt_val (\<lambda>t. PStr (suit_value t)) x) = Inr x"
  by (cases x) (simp_all add: if_truthy_def opt_val_def Suit_of_value suit_value_ne)

lemma if_truthy_card [simp]:
  "if_truthy py_card (opt_val (\<lambda>c. PStr (card_id c)) x) = Inr x"
  by (cases x) (simp_all add: if_truthy_def opt_val_def from_id_card_id card_id_ne)

lemma if_truthy_bid [simp]:
  "if_truthy deserialize_bid (opt_val bid_to_dict x) = Inr x"
proof (cases x)
  case None
  then show ?thesis by (simp add: if_truthy_def opt_val_def)
next
  case (Some b)
  have "truthy (bid_to_dict b)" by (simp add: bid_to_dict_def)
  with Some show ?thesis by (simp add: if_truthy_def opt_val_def)
qed

lemma players_roundtrip [simp]:
  fixes ps :: "Player list"
  shows "map_exn deserialize_player (map serialize_player ps) = Inr ps"
  by (rule map_exn_map) simp

lemma bids_roundtrip [simp]: "map_exn deserialize_bid (map bid_to_dict bs) = Inr bs"
  by (rule map_exn_map) simp

lemma trick_roundtrip [simp]: "map_exn deserialize_trick_card (map tc_to_dict tcs) = Inr tcs"
  by (rule map_exn_map) simp

lemma round_trip_well_formed:
  fixes g :: GameState
  assumes "ttl g = None"
    and "distinct (map fst (tricks_won g))"
    and "distinct (map fst (scores g))"
  shows "deserialize_game_state (serialize_game_state g) = Inr g"
proof -
  have "deserialize_game_state (serialize_game_state g)
          = Inr \<lparr>game_code = game_code g, mode = mode g, phase = phase g, players = players g,
          dealer_seat = dealer_seat g, deck = deck g, center_pile = center_pile g, bids = bids g,
          current_bid = current_bid g, bid_turn_seat = bid_turn_seat g,
          trumper_seat = trumper_seat g, trump_suit = trump_suit g,
          trump_card = trump_card g, trump_revealed = trump_revealed g,
          exchange_done = exchange_done g,
          current_trick = current_trick g, tricks_won = tricks_won g, turn_seat = turn_seat g,
          turn_deadline = turn_deadline g,
          trick_number = trick_number g, lead_seat = lead_seat g, scores = scores g,
          games_played = games_played g,
          created_at = created_at g, ttl = None\<rparr>"
    unfolding deserialize_game_state_def
    by (simp add: serialized_getitem serialized_get GamePhase_of_value
        deserialize_tricks_won_roundtrip[OF assms(2)] deserialize_scores_roundtrip[OF assms(3)])
  also have "\<dots> = Inr g" using assms(1) by (cases g) simp
  finally show ?thesis .
qed

text \<open>
  C4. For every reachable game \<open>g\<close>, deserializing the serialized form gives \<open>g\<close> back:
  the seats that key \<open>tricks_won\<close> and \<open>scores\<close> are written as decimal strings and read
  back as integers, and every card is written as its identifier and rebuilt from it.
\<close>

theorem codec_round_trip:
  assumes "reachable g"
  shows "deserialize_game_state (serialize_game_state g) = Inr g
     \<and> py_getitem (serialize_game_state g) ''tricks_won''
         = Inr (PDict (map (\<lambda>(x, cards). (PStr (str_int x), card_ids cards)) (tricks_won g)))
     \<and> py_getitem (serialize_game_state g) ''scores''
         = Inr (PDict (map (\<lambda>(k, v). (PStr (str_int k), PInt v)) (scores g)))"
proof -
  from reachable_inv[OF assms] have wf: "ttl g = None" "distinct (map fst (tricks_won g))"
    "distinct (map fst (scores g))"
    by (simp_all add: game_inv_def)
  have e1: "(\<lambda>(x, cards). (PStr (str_int x), card_ids cards))
             = (\<lambda>kv. (PStr (str_int (fst kv)), card_ids (snd kv)))" by (simp add: fun_eq_iff)
  have e2: "(\<lambda>(k, v). (PStr (str_int k), PInt v))
             = (\<lambda>kv. (PStr (str_int (fst kv)), PInt (snd kv)))" by (simp add: fun_eq_iff)
  have k1: "py_dict (map (\<lambda>(x, cards). (PStr (str_int x), card_ids cards)) (tricks_won g))
              = map (\<lambda>(x, cards). (PStr (str_int x), card_ids cards)) (tricks_won g)"
    unfolding e1 by (rule py_dict_distinct) (rule distinct_str_keys[OF wf(2)])
  have k2: "py_dict (map (\<lambda>(k, v). (PStr (str_int k), PInt v)) (scores g))
              = map (\<lambda>(k, v). (PStr (str_int k), PInt v)) (scores g)"
    unfolding e2 by (rule py_dict_distinct) (rule distinct_str_keys[OF wf(3)])
  have "py_getitem (serialize_game_state g) ''tricks_won''
         = Inr (PDict (map (\<lambda>(x, cards). (PStr (str_int x), card_ids cards)) (tricks_won g)))"
    by (simp add: serialize_game_state_def k1)
  moreover have "py_getitem (serialize_game_state g) ''scores''
         = Inr (PDict (map (\<lambda>(k, v). (PStr (str_int k), PInt v)) (scores g)))"
    by (simp add: serialize_game_state_def k2)
  ultimately show ?thesis using round_trip_well_formed[OF wf] by simp
qed

theorem codec_round_trip_witness:
  "\<exists>g. reachable g \<and> phase g = BIDDING
       \<and> deserialize_game_state (serialize_game_state g) = Inr g"
proof -
  from ex_started obtain g where g: "start_game ex_full 0 create_deck = Inr (None, g)"
    and ph: "phase g = BIDDING" by blast
  from ex_full_reachable g have r: "reachable g" by (blast intro: reachable.started)
  from codec_round_trip[OF r] r ph show ?thesis by blast
qed

end
